(* ===== verification/Prelude.thy ===== *)
theory Prelude
  imports Main "HOL-Library.AList" "HOL-Library.Sublist"
begin

text \<open>
  Shared base of the development: Python strings, the string operations of the standard
  library that the service uses, list and map lemmas used by more than one component, and
  the generic locale for state invariants.

  A Python string is a \<^typ>\<open>string\<close> whose characters are read as the code points
  U+0000 to U+00FF.  On that range the character classes below are exactly those of CPython
  (str.isspace and the regular expression classes for white space, digits and words, and
  the line boundaries of str.splitlines).  Text with larger code points is outside the model.
\<close>

named_theorems str_simps \<open>unfolding rules for the string operations\<close>

section \<open>Character classes\<close>

definition ord :: "char \<Rightarrow> nat" where
  "ord c = of_char c"

lemma ord_inject [simp]: "ord c = ord d \<longleftrightarrow> c = d"
  by (simp add: ord_def)

definition is_space :: "char \<Rightarrow> bool" where
  "is_space c \<longleftrightarrow> (let n = ord c in (9 \<le> n \<and> n \<le> 13) \<or> (28 \<le> n \<and> n \<le> 32) \<or> n = 133 \<or> n = 160)"

definition is_digit :: "char \<Rightarrow> bool" where
  "is_digit c \<longleftrightarrow> 48 \<le> ord c \<and> ord c \<le> 57"

definition is_ascii_alpha :: "char \<Rightarrow> bool" where
  "is_ascii_alpha c \<longleftrightarrow> (let n = ord c in (65 \<le> n \<and> n \<le> 90) \<or> (97 \<le> n \<and> n \<le> 122))"

definition is_word :: "char \<Rightarrow> bool" where
  "is_word c \<longleftrightarrow> is_digit c \<or> is_ascii_alpha c \<or>
     (let n = ord c in n = 95 \<or> n = 170 \<or> n = 178 \<or> n = 179 \<or> n = 181 \<or> n = 185 \<or> n = 186 \<or>
        (188 \<le> n \<and> n \<le> 190) \<or> (192 \<le> n \<and> n \<le> 214) \<or> (216 \<le> n \<and> n \<le> 246) \<or> 248 \<le> n)"

definition is_linebreak :: "char \<Rightarrow> bool" where
  "is_linebreak c \<longleftrightarrow> (let n = ord c in (10 \<le> n \<and> n \<le> 13) \<or> (28 \<le> n \<and> n \<le> 30) \<or> n = 133)"

definition to_lower :: "char \<Rightarrow> char" where
  "to_lower c = (let n = ord c in
     if (65 \<le> n \<and> n \<le> 90) \<or> (192 \<le> n \<and> n \<le> 214) \<or> (216 \<le> n \<and> n \<le> 222)
     then char_of (n + 32) else c)"

lemmas char_class_defs = is_space_def is_digit_def is_ascii_alpha_def is_word_def
  is_linebreak_def ord_def Let_def

lemma is_space_literals [simp]:
  "is_space CHR '' ''" "is_space CHR 0x0A" "is_space CHR 0x0D" "is_space CHR 0x09"
  "\<not> is_space CHR ''/''" "\<not> is_space CHR ''.''" "\<not> is_space CHR '',''" "\<not> is_space CHR ''-''"
  by (simp_all add: char_class_defs)

lemma linebreak_is_space: "is_linebreak c \<Longrightarrow> is_space c"
  by (auto simp: char_class_defs)

section \<open>String operations of the standard library\<close>

subsection \<open>strip, lstrip, rstrip\<close>

definition py_lstrip :: "string \<Rightarrow> string" where
  "py_lstrip s = dropWhile is_space s"

definition py_rstrip :: "string \<Rightarrow> string" where
  "py_rstrip s = rev (dropWhile is_space (rev s))"

definition py_strip :: "string \<Rightarrow> string" where
  "py_strip s = py_rstrip (py_lstrip s)"

lemma dropWhile_idem: "dropWhile P (dropWhile P xs) = dropWhile P xs"
  by (induction xs) auto

lemma set_py_strip: "set (py_strip s) \<subseteq> set s"
  by (auto simp: py_strip_def py_rstrip_def py_lstrip_def dest!: set_dropWhileD)

lemma py_rstrip_snoc:
  "py_rstrip (s @ [c]) = (if is_space c then py_rstrip s else s @ [c])"
  by (simp add: py_rstrip_def)

lemma py_rstrip_eq_Nil: "py_rstrip s = [] \<longleftrightarrow> (\<forall>c\<in>set s. is_space c)"
  by (simp add: py_rstrip_def dropWhile_eq_Nil_conv)

lemma py_lstrip_eq_Nil: "py_lstrip s = [] \<longleftrightarrow> (\<forall>c\<in>set s. is_space c)"
  by (simp add: py_lstrip_def dropWhile_eq_Nil_conv)

lemma hd_py_lstrip: "py_lstrip s \<noteq> [] \<Longrightarrow> \<not> is_space (hd (py_lstrip s))"
  by (simp add: py_lstrip_def hd_dropWhile)

lemma py_strip_eq_Nil: "py_strip s = [] \<longleftrightarrow> (\<forall>c\<in>set s. is_space c)"
proof
  assume "py_strip s = []"
  then have all: "\<forall>c\<in>set (py_lstrip s). is_space c" by (simp add: py_strip_def py_rstrip_eq_Nil)
  show "\<forall>c\<in>set s. is_space c"
  proof (cases "py_lstrip s = []")
    case True
    then show ?thesis by (simp add: py_lstrip_eq_Nil)
  next
    case False
    then show ?thesis using all hd_py_lstrip [OF False] hd_in_set [OF False] by blast
  qed
next
  assume "\<forall>c\<in>set s. is_space c"
  then show "py_strip s = []"
    by (simp add: py_strip_def py_lstrip_eq_Nil [THEN iffD2] py_rstrip_def)
qed

subsection \<open>split and join\<close>

fun py_split :: "char \<Rightarrow> string \<Rightarrow> string list" where
  "py_split d [] = [[]]"
| "py_split d (c # cs) =
     (if c = d then [] # py_split d cs
      else (case py_split d cs of [] \<Rightarrow> [[c]] | w # ws \<Rightarrow> (c # w) # ws))"

fun py_join :: "string \<Rightarrow> string list \<Rightarrow> string" where
  "py_join sep [] = []"
| "py_join sep [w] = w"
| "py_join sep (w # v # ws) = w @ sep @ py_join sep (v # ws)"

lemma py_split_not_Nil [simp]: "py_split d s \<noteq> []"
  by (induction s) (auto split: list.splits)

lemma py_join_Cons: "ws \<noteq> [] \<Longrightarrow> py_join sep (w # ws) = w @ sep @ py_join sep ws"
  by (cases ws) auto

lemma py_join_split [simp]: "py_join [d] (py_split d s) = s"
proof (induction s)
  case (Cons c cs)
  obtain w ws where w: "py_split d cs = w # ws" by (cases "py_split d cs") auto
  show ?case using Cons w by (cases ws) (auto simp: py_join_Cons)
qed simp

lemma py_split_sep_free: "w \<in> set (py_split d s) \<Longrightarrow> d \<notin> set w"
  by (induction s arbitrary: w) (auto split: list.splits if_splits)

lemma py_split_free: "d \<notin> set w \<Longrightarrow> py_split d w = [w]"
  by (induction w) auto

lemma py_split_append_sep:
  "d \<notin> set w \<Longrightarrow> py_split d (w @ d # s) = w # py_split d s"
  by (induction w) auto

lemma py_split_join:
  "ws \<noteq> [] \<Longrightarrow> (\<And>w. w \<in> set ws \<Longrightarrow> d \<notin> set w) \<Longrightarrow> py_split d (py_join [d] ws) = ws"
proof (induction ws)
  case (Cons w ws)
  then show ?case
    by (cases "ws = []") (auto simp: py_split_free py_join_Cons py_split_append_sep)
qed simp

lemma set_py_split: "w \<in> set (py_split d s) \<Longrightarrow> set w \<subseteq> set s"
  by (induction s arbitrary: w) (force split: list.splits if_splits)+

subsection \<open>splitlines\<close>

text \<open>str.splitlines: a carriage return followed by a line feed is one boundary, and a final
  boundary opens no further line.\<close>

fun splitlines_from :: "string \<Rightarrow> string \<Rightarrow> string list" where
  "splitlines_from cur [] = (if cur = [] then [] else [rev cur])"
| "splitlines_from cur [c] = (if is_linebreak c then [rev cur] else [rev (c # cur)])"
| "splitlines_from cur (c # d # cs) =
     (if c = CHR 0x0D \<and> d = CHR 0x0A then rev cur # splitlines_from [] cs
      else if is_linebreak c then rev cur # splitlines_from [] (d # cs)
      else splitlines_from (c # cur) (d # cs))"

definition py_splitlines :: "string \<Rightarrow> string list" where
  "py_splitlines s = splitlines_from [] s"

lemma splitlines_from_no_break:
  "l \<in> set (splitlines_from cur s) \<Longrightarrow> \<forall>c\<in>set cur. \<not> is_linebreak c \<Longrightarrow> c \<in> set l \<Longrightarrow> \<not> is_linebreak c"
  by (induction cur s rule: splitlines_from.induct) (auto split: if_splits)

lemma splitlines_no_break: "l \<in> set (py_splitlines s) \<Longrightarrow> c \<in> set l \<Longrightarrow> \<not> is_linebreak c"
  unfolding py_splitlines_def by (erule splitlines_from_no_break) auto

subsection \<open>int(text)\<close>

text \<open>
  int(s) on text and on bytes: surrounding white space of the given class is dropped, then an
  optional sign, then digits with single underscores between them, at most 4300 of them.
\<close>

definition int_space :: "char \<Rightarrow> bool" where
  "int_space c \<longleftrightarrow> (let n = ord c in (9 \<le> n \<and> n \<le> 13) \<or> n = 32)"

definition int_space_text :: "char \<Rightarrow> bool" where
  "int_space_text c \<longleftrightarrow> int_space c \<or> ord c = 133 \<or> ord c = 160"

definition digit_val :: "char \<Rightarrow> int" where
  "digit_val c = of_char c - 48"

fun int_digits :: "int \<Rightarrow> int \<Rightarrow> string \<Rightarrow> (int \<times> int) option" where
  "int_digits k acc [] = Some (k, acc)"
| "int_digits k acc (c # cs) =
     (if is_digit c then int_digits (k + 1) (10 * acc + digit_val c) cs
      else if c = CHR ''_'' then
        (case cs of d # ds \<Rightarrow> if is_digit d then int_digits k acc cs else None | [] \<Rightarrow> None)
      else None)"

definition int_body :: "string \<Rightarrow> int option" where
  "int_body s = (case s of
     [] \<Rightarrow> None
   | c # _ \<Rightarrow> if is_digit c
       then (case int_digits 0 0 s of Some (k, v) \<Rightarrow> if k \<le> 4300 then Some v else None | None \<Rightarrow> None)
       else None)"

definition py_int_by :: "(char \<Rightarrow> bool) \<Rightarrow> string \<Rightarrow> int option" where
  "py_int_by sp s = (let t = rev (dropWhile sp (rev (dropWhile sp s))) in
     case t of
       c # cs \<Rightarrow> if c = CHR ''-'' then map_option uminus (int_body cs)
                 else if c = CHR ''+'' then int_body cs
                 else int_body t
     | [] \<Rightarrow> None)"

abbreviation py_int_bytes :: "string \<Rightarrow> int option" where
  "py_int_bytes \<equiv> py_int_by int_space"

abbreviation py_int_text :: "string \<Rightarrow> int option" where
  "py_int_text \<equiv> py_int_by int_space_text"

section \<open>Lists and maps shared by the components\<close>

lemma map_of_AList_update [simp]: "map_of (AList.update k v al) = (map_of al)(k \<mapsto> v)"
  by (rule update_conv')

lemma map_of_AList_delete [simp]: "map_of (AList.delete k al) = (map_of al)(k := None)"
  by (rule delete_conv')

lemma map_of_filter_value:
  "distinct (map fst al) \<Longrightarrow>
     map_of (filter (\<lambda>(k, v). P k v) al) =
       (\<lambda>k. case map_of al k of Some v \<Rightarrow> if P k v then Some v else None | None \<Rightarrow> None)"
proof (induction al)
  case (Cons kv al)
  obtain k v where kv: "kv = (k, v)" by force
  have "map_of al k = None" using Cons.prems kv by (auto simp: map_of_eq_None_iff)
  then show ?case using Cons kv by (auto simp: fun_eq_iff split: option.splits)
qed simp

lemma update_fresh: "k \<notin> fst ` set al \<Longrightarrow> AList.update k v al = al @ [(k, v)]"
  by (induction al) auto

lemma append_sep_inject:
  "d \<notin> set a \<Longrightarrow> d \<notin> set b \<Longrightarrow> a @ d # x = b @ d # y \<longleftrightarrow> a = b \<and> x = y"
proof (induction a arbitrary: b)
  case (Cons c a)
  then show ?case by (cases b) auto
qed (auto simp: Cons_eq_append_conv)

section \<open>Invariants of step relations\<close>

text \<open>
  The generic contract of an inductive invariant: it holds initially and every step keeps it.
  The runs are those of the reflexive transitive closure of the step relation.  Each component
  with state interprets this locale on its own step relation and invariant.
\<close>

locale invariant_system =
  fixes initial :: "'s \<Rightarrow> bool"
    and step :: "'s \<Rightarrow> 's \<Rightarrow> bool"
    and inv :: "'s \<Rightarrow> bool"
  assumes inv_initial: "initial s \<Longrightarrow> inv s"
    and inv_step: "inv s \<Longrightarrow> step s t \<Longrightarrow> inv t"
begin

lemma inv_run: "step\<^sup>*\<^sup>* s t \<Longrightarrow> inv s \<Longrightarrow> inv t"
  by (induction rule: rtranclp_induct) (auto intro: inv_step)

lemma inv_reachable: "initial s \<Longrightarrow> step\<^sup>*\<^sup>* s t \<Longrightarrow> inv t"
  by (blast intro: inv_run inv_initial)

lemma stable_run:
  assumes "\<And>a b. inv a \<Longrightarrow> step a b \<Longrightarrow> P a \<Longrightarrow> P b"
    and "step\<^sup>*\<^sup>* s t" and "inv s" and "P s"
  shows "P t"
proof -
  have "inv t \<and> P t"
    using assms(2-4) by (induction rule: rtranclp_induct) (auto intro: inv_step assms(1))
  then show ?thesis ..
qed

end

text \<open>
  The contract of a refinement: seen through an abstraction function, every step from a state
  that satisfies the invariant is a step of the abstract system or leaves it where it is.  Runs
  then map to abstract runs, and what is invariant of the abstract system holds of the views.
\<close>

locale refinement = invariant_system initial step inv
  for initial :: "'s \<Rightarrow> bool" and step :: "'s \<Rightarrow> 's \<Rightarrow> bool" and inv :: "'s \<Rightarrow> bool" +
  fixes view :: "'s \<Rightarrow> 'a"
    and ainitial :: "'a \<Rightarrow> bool"
    and astep :: "'a \<Rightarrow> 'a \<Rightarrow> bool"
  assumes view_initial: "initial s \<Longrightarrow> ainitial (view s)"
    and simulates: "inv s \<Longrightarrow> step s t \<Longrightarrow> view t = view s \<or> astep (view s) (view t)"
begin

lemma run_refines: "step\<^sup>*\<^sup>* s t \<Longrightarrow> inv s \<Longrightarrow> astep\<^sup>*\<^sup>* (view s) (view t)"
proof (induction rule: rtranclp_induct)
  case (step y z)
  then have "view z = view y \<or> astep (view y) (view z)" using simulates inv_run by blast
  then show ?case using step by (auto intro: rtranclp.rtrancl_into_rtrancl)
qed simp

lemma transfer_invariant:
  assumes "invariant_system ainitial astep ainv" and "initial s" and "step\<^sup>*\<^sup>* s t"
  shows "ainv (view t)"
  using invariant_system.inv_reachable [OF assms(1) view_initial [OF assms(2)]]
    run_refines [OF assms(3) inv_initial [OF assms(2)]] by blast

end

end
