(* ===== verification/PosixPath.thy ===== *)
theory PosixPath
  imports Prelude
begin

text \<open>
  The functions of Python's posixpath module that the service calls: normpath, commonpath of
  two paths, dirname, basename and join.  They work on the text of a path only; whatever
  depends on a file system (realpath, isfile) is a parameter of the components that use it.
\<close>

section \<open>Components of a path\<close>

abbreviation slash :: char where
  "slash \<equiv> CHR ''/''"

abbreviation path_split :: "string \<Rightarrow> string list" where
  "path_split \<equiv> py_split slash"

abbreviation path_join :: "string list \<Rightarrow> string" where
  "path_join \<equiv> py_join [slash]"

definition is_abs :: "string \<Rightarrow> bool" where
  "is_abs p \<longleftrightarrow> (case p of c # _ \<Rightarrow> c = slash | [] \<Rightarrow> False)"

text \<open>A word that can stand between two slashes of a normalised path.\<close>

definition plain_word :: "string \<Rightarrow> bool" where
  "plain_word w \<longleftrightarrow> w \<noteq> [] \<and> w \<noteq> ''.'' \<and> slash \<notin> set w"

lemma plain_wordD: "plain_word w \<Longrightarrow> w \<noteq> []" "plain_word w \<Longrightarrow> slash \<notin> set w"
  by (simp_all add: plain_word_def)

lemma hd_path_join:
  assumes "ws \<noteq> []" and "\<forall>w\<in>set ws. plain_word w"
  shows "path_join ws \<noteq> [] \<and> hd (path_join ws) \<noteq> slash"
proof -
  obtain w ws' where ws: "ws = w # ws'" using assms(1) by (cases ws) auto
  obtain c cs where w: "w = c # cs" using assms(2) ws by (cases w) (auto simp: plain_word_def)
  have "c \<noteq> slash" using assms(2) ws w by (auto simp: plain_word_def)
  then show ?thesis using ws w by (cases ws') auto
qed

lemma last_path_join:
  "ws \<noteq> [] \<Longrightarrow> \<forall>w\<in>set ws. plain_word w \<Longrightarrow> last (path_join ws) \<noteq> slash"
proof (induction ws)
  case (Cons w ws)
  show ?case
  proof (cases "ws = []")
    case True
    then show ?thesis using Cons.prems by (auto simp: plain_word_def) (metis last_in_set)
  next
    case False
    then show ?thesis using Cons hd_path_join [of ws] by (simp add: py_join_Cons)
  qed
qed simp

lemma path_split_join_plain:
  assumes "\<forall>w\<in>set ws. plain_word w"
  shows "path_split (path_join ws) = (if ws = [] then [[]] else ws)"
  using assms by (auto intro!: py_split_join simp: plain_word_def)

lemma path_split_slashes: "path_split (replicate n slash @ s) = replicate n [] @ path_split s"
  by (induction n) auto

section \<open>normpath\<close>

definition initial_slashes :: "string \<Rightarrow> nat" where
  "initial_slashes p =
     (if prefix ''/'' p then (if prefix ''//'' p \<and> \<not> prefix ''///'' p then 2 else 1) else 0)"

definition normpath_step :: "nat \<Rightarrow> string list \<Rightarrow> string \<Rightarrow> string list" where
  "normpath_step n comps c =
     (if c = [] \<or> c = ''.'' then comps
      else if c \<noteq> ''..'' \<or> (n = 0 \<and> comps = []) \<or> (comps \<noteq> [] \<and> last comps = ''..'')
        then comps @ [c]
      else if comps \<noteq> [] then butlast comps
      else comps)"

definition normpath :: "string \<Rightarrow> string" where
  "normpath p =
     (if p = [] then ''.''
      else (let n = initial_slashes p;
                comps = foldl (normpath_step n) [] (path_split p);
                q = replicate n slash @ path_join comps
            in if q = [] then ''.'' else q))"

text \<open>The component lists that normpath leaves alone: plain words, with parent references
  only at the front, and none at all below the root.\<close>

definition normal_comps :: "nat \<Rightarrow> string list \<Rightarrow> bool" where
  "normal_comps n ws \<longleftrightarrow> (\<forall>w\<in>set ws. plain_word w) \<and>
     (\<exists>k ds. ws = replicate k ''..'' @ ds \<and> ''..'' \<notin> set ds \<and> (n \<noteq> 0 \<longrightarrow> k = 0))"

lemma normal_comps_plain: "normal_comps n ws \<Longrightarrow> \<forall>w\<in>set ws. plain_word w"
  by (simp add: normal_comps_def)

lemma normal_comps_Nil [simp]: "normal_comps n []"
  by (simp add: normal_comps_def)

lemma normal_compsI:
  "ws = replicate k ''..'' @ ds \<Longrightarrow> ''..'' \<notin> set ds \<Longrightarrow> (n \<noteq> 0 \<Longrightarrow> k = 0) \<Longrightarrow>
     \<forall>w\<in>set ws. plain_word w \<Longrightarrow> normal_comps n ws"
  unfolding normal_comps_def by blast

lemma normpath_step_normal:
  assumes norm: "normal_comps n ws" and c: "slash \<notin> set c"
  shows "normal_comps n (normpath_step n ws c)"
proof (cases "c = [] \<or> c = ''.''")
  case True
  then show ?thesis using norm by (auto simp: normpath_step_def)
next
  case False
  then have pc: "plain_word c" using c by (simp add: plain_word_def)
  obtain k ds where ws: "ws = replicate k ''..'' @ ds" and ds: "''..'' \<notin> set ds"
    and k: "n \<noteq> 0 \<longrightarrow> k = 0" and pl: "\<forall>w\<in>set ws. plain_word w"
    using norm by (auto simp: normal_comps_def)
  show ?thesis
  proof (cases "c = ''..''")
    case c': False
    have "normal_comps n (ws @ [c])"
      by (rule normal_compsI [of _ k "ds @ [c]"]) (use ws ds c' k pl pc in auto)
    then show ?thesis using False c' by (simp add: normpath_step_def)
  next
    case c': True
    show ?thesis
    proof (cases "ds = []")
      case True
      have "n = 0 \<Longrightarrow> normal_comps n (ws @ [c])"
        by (rule normal_compsI [of _ "Suc k" "[]"])
          (use True c' ws pl pc in \<open>auto simp: replicate_append_same\<close>)
      then show ?thesis using True c' ws k norm by (cases k) (auto simp: normpath_step_def)
    next
      case False
      then have "last ws \<noteq> ''..''" "ws \<noteq> []" "butlast ws = replicate k ''..'' @ butlast ds"
        using ws ds by (auto simp: butlast_append) (metis last_in_set)
      moreover have "''..'' \<notin> set (butlast ds)" using ds by (auto dest: in_set_butlastD)
      moreover have "\<forall>w\<in>set (butlast ws). plain_word w" using pl by (auto dest: in_set_butlastD)
      ultimately have "normal_comps n (butlast ws)" using k by (blast intro: normal_compsI)
      then show ?thesis using c' False \<open>last ws \<noteq> ''..''\<close> \<open>ws \<noteq> []\<close> by (simp add: normpath_step_def)
    qed
  qed
qed

lemma foldl_normpath_normal:
  "normal_comps n ws \<Longrightarrow> \<forall>c\<in>set cs. slash \<notin> set c \<Longrightarrow>
     normal_comps n (foldl (normpath_step n) ws cs)"
  by (induction cs arbitrary: ws) (auto intro: normpath_step_normal)

lemma normpath_step_keeps:
  assumes "normal_comps n (ws @ c # cs)"
  shows "normpath_step n ws c = ws @ [c]"
proof -
  obtain k ds where eq: "ws @ c # cs = replicate k ''..'' @ ds" and ds: "''..'' \<notin> set ds"
    and k: "n \<noteq> 0 \<longrightarrow> k = 0" and pc: "plain_word c"
    using assms by (auto simp: normal_comps_def)
  have "c = ''..'' \<Longrightarrow> n = 0 \<and> (ws = [] \<or> last ws = ''..'')"
  proof -
    assume c: "c = ''..''"
    have lt: "length ws < k"
    proof (rule ccontr)
      assume "\<not> length ws < k"
      then have "(ws @ c # cs) ! length ws \<in> set ds"
        unfolding eq using arg_cong [OF eq, of length] by (auto simp: nth_append)
      then show False using c ds by simp
    qed
    have "ws = take (length ws) (replicate k ''..'' @ ds)" by (simp flip: eq)
    then have "ws = replicate (length ws) ''..''" using lt by (simp add: min_def)
    then have "ws = [] \<or> last ws = ''..''" by (metis last_replicate length_0_conv)
    then show ?thesis using lt k by auto
  qed
  then show ?thesis using pc by (auto simp: normpath_step_def plain_word_def)
qed

lemma foldl_normpath_keeps:
  "normal_comps n (ws @ cs) \<Longrightarrow> foldl (normpath_step n) ws cs = ws @ cs"
proof (induction cs arbitrary: ws)
  case (Cons c cs)
  then show ?case using normpath_step_keeps [OF Cons.prems] Cons.IH [of "ws @ [c]"] by simp
qed simp

lemma foldl_normpath_blank [simp]: "foldl (normpath_step n) ws (replicate k []) = ws"
  by (induction k) (auto simp: normpath_step_def)

lemma initial_slashes_join:
  assumes "n \<le> 2" and "\<forall>w\<in>set ws. plain_word w" and "replicate n slash @ path_join ws \<noteq> []"
  shows "initial_slashes (replicate n slash @ path_join ws) = n"
proof -
  have hd: "path_join ws = [] \<or> (\<exists>c cs. path_join ws = c # cs \<and> c \<noteq> slash)"
    using hd_path_join [of ws] assms(2) by (cases "path_join ws") (cases "ws = []"; auto)+
  consider "n = 0" | "n = 1" | "n = 2" using assms(1) by linarith
  then show ?thesis
    using hd assms(3) by cases (auto simp: initial_slashes_def numeral_2_eq_2)
qed

lemma initial_slashes_le: "initial_slashes p \<le> 2"
  by (simp add: initial_slashes_def)

text \<open>The normal form behind every result of normpath.\<close>

lemma normpath_normal_form:
  obtains (dot) "normpath p = ''.''"
  | (comps) n ws where "n \<le> 2" "normal_comps n ws" "normpath p = replicate n slash @ path_join ws"
      "normpath p \<noteq> []"
proof -
  let ?n = "initial_slashes p" and ?ws = "foldl (normpath_step (initial_slashes p)) [] (path_split p)"
  have "normal_comps ?n ?ws"
    by (rule foldl_normpath_normal) (auto dest: py_split_sep_free)
  then show ?thesis
    using that initial_slashes_le [of p]
    by (cases "p = [] \<or> replicate ?n slash @ path_join ?ws = []") (auto simp: normpath_def Let_def)
qed

lemma normpath_fixpoint:
  assumes "n \<le> 2" and "normal_comps n ws" and "replicate n slash @ path_join ws \<noteq> []"
  shows "normpath (replicate n slash @ path_join ws) = replicate n slash @ path_join ws"
proof -
  have pl: "\<forall>w\<in>set ws. plain_word w" using assms(2) by (rule normal_comps_plain)
  have "foldl (normpath_step n) [] (path_split (replicate n slash @ path_join ws)) = ws"
    using foldl_normpath_keeps [of n "[]" ws] assms(2)
    by (simp add: path_split_slashes path_split_join_plain [OF pl]) (simp add: normpath_step_def)
  then show ?thesis
    using assms initial_slashes_join [OF assms(1) pl assms(3)] by (simp add: normpath_def Let_def)
qed

lemma normpath_dot [simp]: "normpath ''.'' = ''.''"
  by (simp add: normpath_def initial_slashes_def normpath_step_def)

lemma normpath_idem: "normpath (normpath p) = normpath p"
  by (cases p rule: normpath_normal_form) (simp_all add: normpath_fixpoint)

lemma normpath_not_Nil: "normpath p \<noteq> []"
  by (simp add: normpath_def Let_def)

lemma normpath_no_trailing_slash:
  assumes "last (normpath p) = slash"
  shows "normpath p = ''/'' \<or> normpath p = ''//''"
proof (cases p rule: normpath_normal_form)
  case dot
  then show ?thesis using assms by simp
next
  case (comps n ws)
  have "ws = []"
    using comps assms last_path_join [of ws] hd_path_join [of ws] normal_comps_plain [of n ws]
    by (cases "ws = []") auto
  moreover have "n = 1 \<or> n = 2" using comps calculation by (cases n) auto
  ultimately show ?thesis using comps by (auto simp: numeral_2_eq_2)
qed

section \<open>commonpath of two paths\<close>

definition path_words :: "string \<Rightarrow> string list" where
  "path_words p = filter (\<lambda>c. c \<noteq> [] \<and> c \<noteq> ''.'') (path_split p)"

text \<open>The loop of posixpath.commonpath compares the smaller with the larger component list and
  stops at the first difference; the outcome does not depend on which of the two is smaller.\<close>

fun common_prefix :: "string list \<Rightarrow> string list \<Rightarrow> string list" where
  "common_prefix (x # xs) (y # ys) = (if x = y then x # common_prefix xs ys else [])"
| "common_prefix _ _ = []"

text \<open>None stands for the ValueError raised when an absolute path meets a relative one.\<close>

definition commonpath2 :: "string \<Rightarrow> string \<Rightarrow> string option" where
  "commonpath2 a b =
     (if is_abs a \<noteq> is_abs b then None
      else Some ((if is_abs a then ''/'' else []) @
                 path_join (common_prefix (path_words a) (path_words b))))"

lemma common_prefix_prefix1: "prefix (common_prefix xs ys) xs"
  by (induction xs ys rule: common_prefix.induct) auto

lemma common_prefix_prefix2: "prefix (common_prefix xs ys) ys"
  by (induction xs ys rule: common_prefix.induct) auto

lemma common_prefix_eq: "prefix ys xs \<Longrightarrow> common_prefix xs ys = ys"
  by (induction xs ys rule: common_prefix.induct) auto

lemma path_words_plain: "\<forall>w\<in>set (path_words p). plain_word w"
  by (auto simp: path_words_def plain_word_def dest: py_split_sep_free)

lemma path_words_join:
  assumes "\<forall>w\<in>set ws. plain_word w"
  shows "path_words (path_join ws) = ws" and "path_words (slash # path_join ws) = ws"
  using assms path_split_join_plain [OF assms]
  by (auto simp: path_words_def plain_word_def filter_id_conv)

section \<open>dirname, basename, join\<close>

fun split_last_slash :: "string \<Rightarrow> string \<times> string" where
  "split_last_slash [] = ([], [])"
| "split_last_slash (c # cs) =
     (let (h, t) = split_last_slash cs in
      if h = [] \<and> c \<noteq> slash then ([], c # cs) else (c # h, t))"

definition dirname :: "string \<Rightarrow> string" where
  "dirname p = (let h = fst (split_last_slash p) in
     if h \<noteq> [] \<and> h \<noteq> replicate (length h) slash
     then rev (dropWhile (\<lambda>c. c = slash) (rev h)) else h)"

definition basename :: "string \<Rightarrow> string" where
  "basename p = snd (split_last_slash p)"

definition os_path_join :: "string \<Rightarrow> string \<Rightarrow> string" where
  "os_path_join a b =
     (if is_abs b then b
      else if a = [] \<or> last a = slash then a @ b
      else a @ [slash] @ b)"

lemma split_last_slash_free: "slash \<notin> set t \<Longrightarrow> split_last_slash t = ([], t)"
  by (induction t) auto

lemma split_last_slash_append:
  "slash \<notin> set t \<Longrightarrow> h = [] \<or> last h = slash \<Longrightarrow> split_last_slash (h @ t) = (h, t)"
proof (induction h)
  case (Cons c h)
  then show ?case by (cases "h = []") (auto simp: split_last_slash_free)
qed (simp add: split_last_slash_free)

lemma split_last_slash_props:
  "split_last_slash p = (h, t) \<Longrightarrow> p = h @ t \<and> slash \<notin> set t \<and> (h = [] \<or> last h = slash)"
  by (induction p arbitrary: h t) (auto split: prod.splits if_splits)

end
