(* ===== verification/Config.thy ===== *)
theory Config
  imports PosixPath
begin

text \<open>
  Configuration (app/config.py): the comma-separated root list and the settings read from the
  environment when the module is imported.
\<close>

section \<open>Roots\<close>

fun add_roots :: "string list \<Rightarrow> string list \<Rightarrow> string list" where
  "add_roots roots [] = roots"
| "add_roots roots (part # parts) =
     (let cleaned = py_strip part in
      if cleaned = [] then add_roots roots parts
      else add_roots (roots @ [normpath cleaned]) parts)"

definition parse_roots :: "string \<Rightarrow> string list" where
  "parse_roots raw = add_roots [] (py_split CHR '','' raw)"

section \<open>The settings\<close>

record config =
  ALLOWED_ROOTS :: "string list"
  HANDBRAKE_BIN :: string
  WORKERS :: int
  JOB_TTL_SECONDS :: int
  PORT :: int
  MAX_QUEUE :: int
  MAX_BODY_BYTES :: int

definition getenv :: "(string \<Rightarrow> string option) \<Rightarrow> string \<Rightarrow> string \<Rightarrow> string" where
  "getenv env k d = (case env k of Some v \<Rightarrow> v | None \<Rightarrow> d)"

text \<open>None when an int() raises ValueError: the import fails and the service does not start.\<close>

definition load_config :: "(string \<Rightarrow> string option) \<Rightarrow> config option" where
  "load_config env =
     (case (py_int_text (getenv env ''ENCODER_WORKERS'' ''1''),
            py_int_text (getenv env ''ENCODER_JOB_TTL'' ''3600''),
            py_int_text (getenv env ''PORT'' ''3335''),
            py_int_text (getenv env ''ENCODER_MAX_QUEUE'' ''100''),
            py_int_text (getenv env ''ENCODER_MAX_BODY_BYTES'' ''1000000'')) of
        (Some w, Some t, Some p, Some q, Some b) \<Rightarrow>
          Some \<lparr>ALLOWED_ROOTS = parse_roots (getenv env ''ENCODER_ALLOWED_ROOTS'' ''''),
                HANDBRAKE_BIN = getenv env ''HANDBRAKE_BIN'' ''HandBrakeCLI'',
                WORKERS = w, JOB_TTL_SECONDS = t, PORT = p, MAX_QUEUE = q, MAX_BODY_BYTES = b\<rparr>
      | _ \<Rightarrow> None)"

section \<open>Lemmas\<close>

lemma add_roots_append: "add_roots rs ps = rs @ add_roots [] ps"
proof (induction ps arbitrary: rs)
  case (Cons p ps)
  show ?case
    using Cons.IH [of "rs @ [normpath (py_strip p)]"] Cons.IH [of "[normpath (py_strip p)]"] Cons.IH [of rs]
    by (auto simp: Let_def)
qed simp

lemma add_roots_Nil_eq:
  "add_roots [] ps = map (\<lambda>p. normpath (py_strip p)) (filter (\<lambda>p. py_strip p \<noteq> []) ps)"
proof (induction ps)
  case (Cons p ps)
  then show ?case using add_roots_append [of "[normpath (py_strip p)]" ps] by (simp add: Let_def)
qed simp

lemma parse_roots_eq:
  "parse_roots raw =
     map (\<lambda>p. normpath (py_strip p)) (filter (\<lambda>p. py_strip p \<noteq> []) (py_split CHR '','' raw))"
  by (simp add: parse_roots_def add_roots_Nil_eq)

lemma py_split_all:
  "(\<forall>w\<in>set (py_split d s). \<forall>c\<in>set w. P c) \<longleftrightarrow> (\<forall>c\<in>set s. c = d \<or> P c)"
proof (induction s)
  case (Cons c cs)
  obtain w ws where "py_split d cs = w # ws" by (cases "py_split d cs") auto
  then show ?case using Cons by auto
qed simp

text \<open>Every configured root is in normal form: normalising it again changes nothing, it is
  not empty, and it has no trailing slash unless it is a file-system root.\<close>

theorem parse_roots_normalised:
  assumes "r \<in> set (parse_roots raw)"
  shows "normpath r = r \<and> r \<noteq> [] \<and> (last r = slash \<longrightarrow> r = ''/'' \<or> r = ''//'')"
  using assms normpath_idem normpath_not_Nil normpath_no_trailing_slash
  by (auto simp: parse_roots_eq)

theorem parse_roots_normalised_witness:
  "''/media2'' \<in> set (parse_roots ''/media1, /media2//'') \<and> normpath ''/media2'' = ''/media2''"
proof -
  have h: "''/media2'' \<in> set (parse_roots ''/media1, /media2//'')" by code_simp
  show ?thesis using h parse_roots_normalised [OF h] by simp
qed

text \<open>The root list is empty, which makes the service refuse every path, exactly when
  the setting holds nothing but commas and white space.\<close>

theorem parse_roots_empty_iff:
  "parse_roots raw = [] \<longleftrightarrow> filter (\<lambda>c. c \<noteq> CHR '','' \<and> \<not> is_space c) raw = []"
proof -
  have "parse_roots raw = [] \<longleftrightarrow> (\<forall>w\<in>set (py_split CHR '','' raw). \<forall>c\<in>set w. is_space c)"
    by (auto simp: parse_roots_eq filter_empty_conv py_strip_eq_Nil)
  also have "\<dots> \<longleftrightarrow> (\<forall>c\<in>set raw. c = CHR '','' \<or> is_space c)" by (rule py_split_all)
  also have "\<dots> \<longleftrightarrow> filter (\<lambda>c. c \<noteq> CHR '','' \<and> \<not> is_space c) raw = []"
    by (auto simp: filter_empty_conv)
  finally show ?thesis .
qed

text \<open>A root written as a relative path stays relative.\<close>

lemma parse_roots_keeps_relative: "parse_roots ''media'' = [''media'']"
  by code_simp

lemma load_config_default:
  "load_config (\<lambda>_. None) =
     Some \<lparr>ALLOWED_ROOTS = [], HANDBRAKE_BIN = ''HandBrakeCLI'', WORKERS = 1,
           JOB_TTL_SECONDS = 3600, PORT = 3335, MAX_QUEUE = 100, MAX_BODY_BYTES = 1000000\<rparr>"
  by code_simp

end
