(* ===== verification/Values.thy ===== *)
theory Values
  imports Prelude Complex_Main
begin

text \<open>
  The values the service handles: IEEE binary64 floats with the operations the source uses
  (conversion from int, product, min, comparison, truncation, round to one decimal), and the
  values that json.loads produces, with the dictionary access, truth value and type tests of
  the source.  A finite float is its exact rational value; the sign of zero is not kept, since
  no operation of the source distinguishes the two zeros.
\<close>

section \<open>Binary64 floats\<close>

datatype pyfloat = NaN | Inf bool | Fin rat

text \<open>\<^term>\<open>Inf True\<close> is minus infinity.\<close>

text \<open>int.bit_length on a non-negative integer.\<close>

function bits :: "int \<Rightarrow> int" where
  "bits n = (if n \<le> 0 then 0 else 1 + bits (n div 2))"
  by pat_completeness auto
termination
  by (relation "measure nat") auto

declare bits.simps [simp del]

definition pow2 :: "int \<Rightarrow> rat" where
  "pow2 e = (if 0 \<le> e then 2 ^ nat e else 1 / 2 ^ nat (- e))"

lemma pow2_pos [simp]: "0 < pow2 e"
  by (simp add: pow2_def)

text \<open>The exponent of a positive rational: the largest e with 2^e at most x.\<close>

definition exponent :: "rat \<Rightarrow> int" where
  "exponent x = (let (n, d) = quotient_of x; e = bits n - bits d in
     if pow2 e \<le> x then e else e - 1)"

definition round_half_even :: "rat \<Rightarrow> int" where
  "round_half_even x = (let f = \<lfloor>x\<rfloor>; d = x - of_int f in
     if d < 1 / 2 then f else if 1 / 2 < d then f + 1 else if even f then f else f + 1)"

text \<open>Rounding of an exact result to binary64: 53 significant bits, subnormals below
  2^(-1022), overflow to infinity at 2^1024, ties to even.\<close>

definition round64 :: "rat \<Rightarrow> pyfloat" where
  "round64 x =
     (if x = 0 then Fin 0
      else (let e = max (exponent \<bar>x\<bar> - 52) (- 1074);
                r = of_int (round_half_even (x / pow2 e)) * pow2 e
            in if 1024 \<le> exponent \<bar>r\<bar> then Inf (x < 0) else Fin r))"

fun fmul :: "pyfloat \<Rightarrow> pyfloat \<Rightarrow> pyfloat" where
  "fmul NaN _ = NaN"
| "fmul _ NaN = NaN"
| "fmul (Inf a) (Inf b) = Inf (a \<noteq> b)"
| "fmul (Inf a) (Fin y) = (if y = 0 then NaN else Inf (a \<noteq> (y < 0)))"
| "fmul (Fin x) (Inf b) = (if x = 0 then NaN else Inf ((x < 0) \<noteq> b))"
| "fmul (Fin x) (Fin y) = round64 (x * y)"

text \<open>Python compares numbers by exact value; every comparison with NaN is false.\<close>

fun flt :: "pyfloat \<Rightarrow> pyfloat \<Rightarrow> bool" where
  "flt (Fin x) (Fin y) \<longleftrightarrow> x < y"
| "flt (Inf a) (Fin _) \<longleftrightarrow> a"
| "flt (Fin _) (Inf b) \<longleftrightarrow> \<not> b"
| "flt (Inf a) (Inf b) \<longleftrightarrow> a \<and> \<not> b"
| "flt _ _ \<longleftrightarrow> False"

fun feq :: "pyfloat \<Rightarrow> pyfloat \<Rightarrow> bool" where
  "feq (Fin x) (Fin y) \<longleftrightarrow> x = y"
| "feq (Inf a) (Inf b) \<longleftrightarrow> a = b"
| "feq _ _ \<longleftrightarrow> False"

text \<open>min(a, b) keeps its first argument unless the second is smaller.\<close>

definition fmin :: "pyfloat \<Rightarrow> pyfloat \<Rightarrow> pyfloat" where
  "fmin a b = (if flt b a then b else a)"

fun is_finite :: "pyfloat \<Rightarrow> bool" where
  "is_finite (Fin _) \<longleftrightarrow> True"
| "is_finite _ \<longleftrightarrow> False"

text \<open>float(n) raises OverflowError when n rounds past the largest finite float.\<close>

definition float_of_int :: "int \<Rightarrow> pyfloat option" where
  "float_of_int n = (case round64 (of_int n) of Fin x \<Rightarrow> Some (Fin x) | _ \<Rightarrow> None)"

definition py_trunc :: "rat \<Rightarrow> int" where
  "py_trunc x = (if 0 \<le> x then \<lfloor>x\<rfloor> else \<lceil>x\<rceil>)"

text \<open>round(x, 1): the correctly rounded decimal with one digit, read back as a float.\<close>

fun round1 :: "pyfloat \<Rightarrow> pyfloat" where
  "round1 (Fin x) = round64 (of_int (round_half_even (x * 10)) / 10)"
| "round1 x = x"

subsection \<open>Rounding lemmas\<close>

lemma round_half_even_nonneg: "0 \<le> x \<Longrightarrow> 0 \<le> round_half_even x"
  by (simp add: round_half_even_def Let_def)

lemma round_half_even_of_int [simp]: "round_half_even (of_int n) = n"
  by (simp add: round_half_even_def)

lemma round_half_even_mono:
  assumes "x \<le> y"
  shows "round_half_even x \<le> round_half_even y"
proof (cases "\<lfloor>x\<rfloor> = \<lfloor>y\<rfloor>")
  case True
  then show ?thesis using assms by (auto simp: round_half_even_def Let_def)
next
  case False
  with assms have "\<lfloor>x\<rfloor> + 1 \<le> \<lfloor>y\<rfloor>" by (meson floor_mono order_le_imp_less_or_eq zless_imp_add1_zle)
  then show ?thesis by (auto simp: round_half_even_def Let_def)
qed

lemma round64_zero [simp]: "round64 0 = Fin 0"
  by (simp add: round64_def)

lemma pow2_nonneg [simp]: "0 \<le> pow2 e"
  using pow2_pos [of e] by (rule less_imp_le)

lemma round64_nonneg: "0 \<le> x \<Longrightarrow> round64 x = Fin r \<Longrightarrow> 0 \<le> r"
  by (auto simp: round64_def Let_def round_half_even_nonneg split: if_splits
      intro!: mult_nonneg_nonneg)

lemma round64_not_NaN [simp]: "round64 x \<noteq> NaN"
  by (simp add: round64_def Let_def)

lemma round64_Inf_sign: "round64 x = Inf s \<Longrightarrow> s = (x < 0)"
  by (auto simp: round64_def Let_def split: if_splits)

section \<open>JSON values\<close>

text \<open>What json.loads returns: None, booleans, ints (unbounded), floats, strings, lists and
  dictionaries; a dictionary is an association list in insertion order.\<close>

datatype json =
    JNull
  | JBool bool
  | JInt int
  | JFloat pyfloat
  | JStr string
  | JList "json list"
  | JDict "(string \<times> json) list"

type_synonym dict = "(string \<times> json) list"

text \<open>d.get(k), with None for a missing key.\<close>

definition dget :: "dict \<Rightarrow> string \<Rightarrow> json" where
  "dget d k = (case map_of d k of Some v \<Rightarrow> v | None \<Rightarrow> JNull)"

fun truthy :: "json \<Rightarrow> bool" where
  "truthy JNull \<longleftrightarrow> False"
| "truthy (JBool b) \<longleftrightarrow> b"
| "truthy (JInt n) \<longleftrightarrow> n \<noteq> 0"
| "truthy (JFloat x) \<longleftrightarrow> x \<noteq> Fin 0"
| "truthy (JStr s) \<longleftrightarrow> s \<noteq> []"
| "truthy (JList xs) \<longleftrightarrow> xs \<noteq> []"
| "truthy (JDict d) \<longleftrightarrow> d \<noteq> []"

text \<open>isinstance(v, (int, float)): a bool is an int.  The value of such a number is exact.\<close>

fun as_number :: "json \<Rightarrow> pyfloat option" where
  "as_number (JBool b) = Some (Fin (if b then 1 else 0))"
| "as_number (JInt n) = Some (Fin (of_int n))"
| "as_number (JFloat x) = Some x"
| "as_number _ = None"

fun as_dict :: "json \<Rightarrow> dict option" where
  "as_dict (JDict d) = Some d"
| "as_dict _ = None"

lemma as_dict_Some [simp]: "as_dict v = Some d \<longleftrightarrow> v = JDict d"
  by (cases v) auto

lemma dget_Nil [simp]: "dget [] k = JNull"
  by (simp add: dget_def)

lemma dget_Cons [simp]: "dget ((k', v) # d) k = (if k = k' then v else dget d k)"
  by (simp add: dget_def)

text \<open>A value stored in a dictionary is smaller than the dictionary: the measure of the
  recursions that descend through a key.\<close>

lemma size_map_of: "map_of d k = Some v \<Longrightarrow> size v < size_list (size_prod (\<lambda>_. 0) size) d"
  by (induction d) (auto split: if_splits)

lemma size_dget:
  "dget d k = JList xs \<Longrightarrow> size_list size xs < size_list (size_prod (\<lambda>_. 0) size) d"
  using size_map_of [of d k "JList xs"] by (auto simp: dget_def split: option.splits)

end
