(* ===== verification/Errors.thy ===== *)
theory Errors
  imports Values
begin

text \<open>
  The exceptions of the service as values.  One constructor per exception class and one reason
  per raise statement, carrying the values its message interpolates; the text of the messages
  is not rendered.  A fallible operation returns \<open>exc + 'a\<close>, with \<open>Inl\<close> for the
  exception that escapes.
\<close>

datatype path_reason =
    NoRootsConfigured
  | InvalidSourcePath string
  | OutsideAllowedRoots "string list" string
  | InvalidToken string string
  | OutputCollidesWithSource
  | StagingNotClaimed string
  | StagingReplaced

datatype preset_reason =
    PresetNotFound string
  | NoVideoEncoder json
  | UnsupportedFormat json json

datatype runner_reason =
    TimedOut
  | ProcessStderr string
  | ExitCode int

datatype exc =
    PathNotAllowed path_reason
  | SourceNotFound string
  | PresetError preset_reason
  | HandBrakeError runner_reason
  | HandBrakeCancelled
  | QueueFull int int
  | OSError string
  | ValueError
  | TimeoutExpired
  | OtherException string
  | OtherBaseException string

type_synonym 'a result = "exc + 'a"

text \<open>Which exceptions an except Exception clause catches: all but SystemExit,
  KeyboardInterrupt and their kin.\<close>

fun is_exception :: "exc \<Rightarrow> bool" where
  "is_exception (OtherBaseException _) \<longleftrightarrow> False"
| "is_exception _ \<longleftrightarrow> True"

definition bind_res :: "'a result \<Rightarrow> ('a \<Rightarrow> 'b result) \<Rightarrow> 'b result" where
  "bind_res r k = (case r of Inl e \<Rightarrow> Inl e | Inr x \<Rightarrow> k x)"

lemma bind_res_simps [simp]:
  "bind_res (Inl e) k = Inl e" "bind_res (Inr x) k = k x"
  by (simp_all add: bind_res_def)

lemma bind_res_Inr: "bind_res r k = Inr y \<longleftrightarrow> (\<exists>x. r = Inr x \<and> k x = Inr y)"
  by (cases r) auto

lemma bind_res_Inl: "bind_res r k = Inl e \<longleftrightarrow> r = Inl e \<or> (\<exists>x. r = Inr x \<and> k x = Inl e)"
  by (cases r) auto

end
