(* ===== verification/Paths.thy ===== *)
theory Paths
  imports Config Errors
begin

text \<open>
  Path validation and derived output names (app/paths.py).  What the file system answers is a
  parameter: \<open>realpath\<close> resolves a path or raises (ValueError for an embedded NUL byte) and
  \<open>isfile\<close> tells whether a resolved path is a regular file.
\<close>

record os_view =
  realpath :: "string \<Rightarrow> string result"
  isfile :: "string \<Rightarrow> bool"

section \<open>The operations\<close>

definition OUTPUT_PREFIX :: string where
  "OUTPUT_PREFIX = ''.hbenc-''"

definition safe_char :: "char \<Rightarrow> bool" where
  "safe_char c \<longleftrightarrow> is_ascii_alpha c \<or> is_digit c \<or> c = CHR ''_'' \<or> c = CHR ''-''"

definition safe_token :: "string \<Rightarrow> bool" where
  "safe_token t \<longleftrightarrow> t \<noteq> [] \<and> list_all safe_char t"

text \<open>The ValueError of commonpath (absolute against relative) is caught and means no.\<close>

definition is_within :: "string \<Rightarrow> string \<Rightarrow> bool" where
  "is_within candidate root_dir =
     (case commonpath2 candidate root_dir of Some c \<Rightarrow> c = root_dir | None \<Rightarrow> False)"

fun within_some_root :: "os_view \<Rightarrow> string \<Rightarrow> string list \<Rightarrow> bool result" where
  "within_some_root os resolved [] = Inr False"
| "within_some_root os resolved (root_dir # roots) =
     bind_res (realpath os root_dir) (\<lambda>r.
       if is_within resolved r then Inr True else within_some_root os resolved roots)"

definition validate_source_path ::
    "os_view \<Rightarrow> string list \<Rightarrow> string \<Rightarrow> string list option \<Rightarrow> string result" where
  "validate_source_path os configured path roots =
     (let allowed = (case roots of None \<Rightarrow> configured | Some rs \<Rightarrow> rs) in
      if allowed = [] then Inl (PathNotAllowed NoRootsConfigured)
      else (case realpath os path of
          Inl ValueError \<Rightarrow> Inl (PathNotAllowed (InvalidSourcePath path))
        | Inl e \<Rightarrow> Inl e
        | Inr resolved \<Rightarrow>
            bind_res (within_some_root os resolved allowed) (\<lambda>ok.
              if \<not> ok then Inl (PathNotAllowed (OutsideAllowedRoots allowed path))
              else if \<not> isfile os resolved then Inl (SourceNotFound path)
              else Inr resolved)))"

fun check_tokens :: "(string \<times> string) list \<Rightarrow> unit result" where
  "check_tokens [] = Inr ()"
| "check_tokens ((label, token) # rest) =
     (if safe_token token then check_tokens rest
      else Inl (PathNotAllowed (InvalidToken label token)))"

definition derive_output_path :: "string \<Rightarrow> string \<Rightarrow> string \<Rightarrow> string result" where
  "derive_output_path source job_id extension =
     bind_res (check_tokens [(''job id'', job_id), (''extension'', extension)]) (\<lambda>_.
       Inr (os_path_join (dirname source) (OUTPUT_PREFIX @ job_id @ ''.'' @ extension)))"

definition derive_staging_path ::
    "string \<Rightarrow> string \<Rightarrow> string \<Rightarrow> string \<Rightarrow> string result" where
  "derive_staging_path source job_id extension token =
     bind_res (check_tokens [(''job id'', job_id), (''extension'', extension), (''token'', token)]) (\<lambda>_.
       Inr (os_path_join (dirname source) (OUTPUT_PREFIX @ job_id @ ''-'' @ token @ ''.'' @ extension)))"

section \<open>Containment of paths\<close>

definition canonical :: "string \<Rightarrow> bool" where
  "canonical p \<longleftrightarrow> p = (if is_abs p then ''/'' else []) @ path_join (path_words p)"

lemma is_abs_words:
  assumes "\<forall>w\<in>set ws. plain_word w"
  shows "is_abs (slash # path_join ws)" and "\<not> is_abs (path_join ws)"
proof -
  show "is_abs (slash # path_join ws)" by (simp add: is_abs_def)
  show "\<not> is_abs (path_join ws)"
    using hd_path_join [OF _ assms]
    by (cases "ws = []"; cases "path_join ws") (auto simp: is_abs_def)
qed

lemma canonical_render:
  assumes "\<forall>w\<in>set ws. plain_word w"
  shows "canonical (slash # path_join ws)" and "canonical (path_join ws)"
  using assms by (simp_all add: canonical_def is_abs_words path_words_join)

lemma is_within_iff:
  "is_within c r \<longleftrightarrow> is_abs c = is_abs r \<and> prefix (path_words r) (path_words c) \<and> canonical r"
proof -
  let ?ws = "common_prefix (path_words c) (path_words r)"
  have pl: "\<forall>w\<in>set ?ws. plain_word w"
    using common_prefix_prefix1 [of "path_words c" "path_words r"] path_words_plain [of c]
    by (auto dest: set_mono_prefix)
  have "prefix (path_words r) (path_words c)" if "is_abs c = is_abs r"
    "(if is_abs c then ''/'' else []) @ path_join ?ws = r"
  proof -
    have "path_words r = ?ws"
      using that path_words_join [OF pl] by (cases "is_abs c") auto
    then show ?thesis using common_prefix_prefix1 [of "path_words c" "path_words r"] by simp
  qed
  moreover have "canonical r" if "(if is_abs c then ''/'' else []) @ path_join ?ws = r"
    using that canonical_render [OF pl] by (cases "is_abs c") auto
  ultimately show ?thesis
    by (auto simp: is_within_def commonpath2_def canonical_def common_prefix_eq)
qed

lemma within_some_root_True:
  "within_some_root os resolved roots = Inr True \<Longrightarrow>
     \<exists>root_dir\<in>set roots. \<exists>r. realpath os root_dir = Inr r \<and> is_within resolved r"
  by (induction roots) (auto simp: bind_res_Inr split: if_splits)

lemma within_some_root_False:
  "within_some_root os resolved roots = Inr False \<Longrightarrow> root_dir \<in> set roots \<Longrightarrow>
     \<exists>r. realpath os root_dir = Inr r \<and> \<not> is_within resolved r"
  by (induction roots) (auto simp: bind_res_Inr split: if_splits)

lemma validate_Inr:
  "validate_source_path os configured path roots = Inr p \<longleftrightarrow>
     realpath os path = Inr p \<and> isfile os p \<and>
     within_some_root os p (case roots of None \<Rightarrow> configured | Some rs \<Rightarrow> rs) = Inr True"
  by (auto simp: validate_source_path_def Let_def bind_res_Inr split: option.splits sum.splits exc.splits if_splits)

section \<open>Names derived from the source\<close>

lemma safe_char_plain: "safe_char c \<Longrightarrow> c \<noteq> slash \<and> c \<noteq> CHR ''.''"
  by (auto simp: safe_char_def char_class_defs)

lemma safe_token_plain:
  "safe_token t \<Longrightarrow> slash \<notin> set t" "safe_token t \<Longrightarrow> CHR ''.'' \<notin> set t" "safe_token t \<Longrightarrow> t \<noteq> []"
  by (auto simp: safe_token_def list_all_iff dest: safe_char_plain)

lemma dirname_cases:
  "dirname p = [] \<or> dirname p = replicate (length (dirname p)) slash \<or> last (dirname p) \<noteq> slash"
proof -
  let ?h = "fst (split_last_slash p)"
  have "rev (dropWhile (\<lambda>c. c = slash) (rev ?h)) = [] \<or>
        last (rev (dropWhile (\<lambda>c. c = slash) (rev ?h))) \<noteq> slash"
    using hd_dropWhile [of "\<lambda>c. c = slash" "rev ?h"] by (auto simp: last_rev)
  then show ?thesis by (auto simp: dirname_def Let_def)
qed

lemma rstrip_slash:
  "d \<noteq> [] \<Longrightarrow> last d \<noteq> slash \<Longrightarrow> rev (dropWhile (\<lambda>c. c = slash) (rev (d @ [slash]))) = d"
  by (cases d rule: rev_cases) auto

lemma sibling_dirname_basename:
  assumes name: "name \<noteq> []" "slash \<notin> set name"
  shows "dirname (os_path_join (dirname s) name) = dirname s"
    and "basename (os_path_join (dirname s) name) = name"
proof -
  let ?d = "dirname s"
  have na: "\<not> is_abs name" using name by (cases name) (auto simp: is_abs_def)
  consider (empty) "?d = []" | (slashes) "?d \<noteq> []" "?d = replicate (length ?d) slash"
    | (dir) "?d \<noteq> []" "last ?d \<noteq> slash"
    using dirname_cases [of s] by blast
  then have "dirname (os_path_join ?d name) = ?d \<and> basename (os_path_join ?d name) = name"
  proof cases
    case empty
    then show ?thesis using na name
      by (simp add: os_path_join_def dirname_def basename_def split_last_slash_free)
  next
    case slashes
    have l: "last ?d = slash" using slashes by (metis last_replicate length_0_conv)
    then show ?thesis using na name slashes
      by (simp add: os_path_join_def split_last_slash_append dirname_def [of "?d @ name"] basename_def)
  next
    case dir
    have sp: "split_last_slash ((?d @ [slash]) @ name) = (?d @ [slash], name)"
      by (rule split_last_slash_append) (use name in auto)
    have "?d @ [slash] \<noteq> replicate (length (?d @ [slash])) slash"
    proof
      assume "?d @ [slash] = replicate (length (?d @ [slash])) slash"
      then have "\<forall>c\<in>set (?d @ [slash]). c = slash" by (metis in_set_replicate)
      then show False using dir by simp
    qed
    then show ?thesis using na dir sp rstrip_slash [OF dir]
      by (simp add: os_path_join_def dirname_def [of "?d @ slash # name"] basename_def Let_def)
  qed
  then show "dirname (os_path_join ?d name) = ?d" "basename (os_path_join ?d name) = name" by auto
qed

subsection \<open>Words of a derived path\<close>

lemma py_split_append: "py_split d (a @ d # b) = py_split d a @ py_split d b"
proof (induction a)
  case (Cons c a)
  obtain w ws where "py_split d a = w # ws" by (cases "py_split d a") auto
  then show ?case using Cons by auto
qed simp

lemma path_words_append_slash: "path_words (a @ slash # b) = path_words a @ path_words b"
  by (simp add: path_words_def py_split_append)

lemma path_words_Nil [simp]: "path_words [] = []"
  by (simp add: path_words_def)

lemma path_words_plain_word: "plain_word w \<Longrightarrow> path_words w = [w]"
  by (auto simp: path_words_def plain_word_def py_split_free)

lemma path_words_trailing_slashes: "path_words (a @ replicate k slash) = path_words a"
proof (induction k arbitrary: a)
  case (Suc k)
  have "path_words (a @ slash # replicate k slash) = path_words a @ path_words ([] @ replicate k slash)"
    by (simp add: path_words_append_slash)
  also have "\<dots> = path_words a" using Suc [of "[]"] by simp
  finally show ?case by simp
qed simp

lemma strip_slashes_decomp: "\<exists>k. h = rev (dropWhile (\<lambda>c. c = slash) (rev h)) @ replicate k slash"
proof -
  have "rev h = takeWhile (\<lambda>c. c = slash) (rev h) @ dropWhile (\<lambda>c. c = slash) (rev h)" by simp
  moreover have "takeWhile (\<lambda>c. c = slash) (rev h) =
      replicate (length (takeWhile (\<lambda>c. c = slash) (rev h))) slash"
    by (rule replicate_eqI) (auto dest: set_takeWhileD)
  ultimately show ?thesis by (metis rev_append rev_replicate rev_rev_ident)
qed

lemma path_words_dirname_basename:
  "path_words s = path_words (dirname s) @ path_words (basename s)"
proof -
  obtain h t where ht: "split_last_slash s = (h, t)" by force
  then have s: "s = h @ t" and h: "h = [] \<or> last h = slash"
    using split_last_slash_props by blast+
  have "path_words (dirname s) = path_words h"
  proof -
    obtain k where "h = rev (dropWhile (\<lambda>c. c = slash) (rev h)) @ replicate k slash"
      using strip_slashes_decomp by blast
    then show ?thesis using ht path_words_trailing_slashes
      by (auto simp: dirname_def Let_def) metis
  qed
  moreover have "path_words (h @ t) = path_words h @ path_words t"
  proof (cases "h = []")
    case False
    then obtain h' where "h = h' @ [slash]" using h by (metis append_butlast_last_id)
    then show ?thesis
      using path_words_append_slash [of h' t] path_words_append_slash [of h' "[]"] by simp
  qed simp
  ultimately show ?thesis using s ht by (simp add: basename_def)
qed

lemma path_words_os_path_join:
  assumes "\<not> is_abs b"
  shows "path_words (os_path_join a b) = path_words a @ path_words b"
proof (cases "a = [] \<or> last a = slash")
  case True
  show ?thesis
  proof (cases "a = []")
    case False
    with True obtain a' where "a = a' @ [slash]" by (metis append_butlast_last_id)
    then show ?thesis using assms path_words_append_slash [of a' b] path_words_append_slash [of a' "[]"]
      by (simp add: os_path_join_def)
  qed (use assms in \<open>simp add: os_path_join_def\<close>)
next
  case False
  then show ?thesis using assms by (simp add: os_path_join_def path_words_append_slash)
qed

lemma is_abs_dirname: "is_abs (dirname s) = is_abs s"
proof -
  obtain h t where ht: "split_last_slash s = (h, t)" by force
  then have s: "s = h @ t" and t: "slash \<notin> set t" and h: "h = [] \<or> last h = slash"
    using split_last_slash_props by blast+
  obtain k where k: "h = rev (dropWhile (\<lambda>c. c = slash) (rev h)) @ replicate k slash"
    using strip_slashes_decomp by blast
  let ?d = "rev (dropWhile (\<lambda>c. c = slash) (rev h))"
  have "?d = [] \<Longrightarrow> h = replicate (length h) slash" using k by (metis append_Nil length_replicate)
  then have "h \<noteq> [] \<Longrightarrow> h \<noteq> replicate (length h) slash \<Longrightarrow> is_abs ?d = is_abs h"
    using k by (metis append_is_Nil_conv hd_append2 is_abs_def list.case_eq_if)
  moreover have "is_abs s = is_abs h"
    using s t by (cases h; cases t) (auto simp: is_abs_def)
  ultimately show ?thesis using ht by (auto simp: dirname_def Let_def)
qed

lemma is_abs_os_path_join:
  "\<not> is_abs b \<Longrightarrow> is_abs (os_path_join a b) = is_abs a"
  by (cases a; cases b) (auto simp: os_path_join_def is_abs_def)

section \<open>Theorems\<close>

lemma derive_output_Inr:
  "derive_output_path s j e = Inr out \<longleftrightarrow> safe_token j \<and> safe_token e \<and>
     out = os_path_join (dirname s) (OUTPUT_PREFIX @ j @ ''.'' @ e)"
  by (auto simp: derive_output_path_def bind_res_Inr)

lemma derive_staging_Inr:
  "derive_staging_path s j e t = Inr st \<longleftrightarrow> safe_token j \<and> safe_token e \<and> safe_token t \<and>
     st = os_path_join (dirname s) (OUTPUT_PREFIX @ j @ ''-'' @ t @ ''.'' @ e)"
  by (auto simp: derive_staging_path_def bind_res_Inr)

lemma derived_name_plain:
  assumes "slash \<notin> set x"
  shows "OUTPUT_PREFIX @ x \<noteq> []" "slash \<notin> set (OUTPUT_PREFIX @ x)" "plain_word (OUTPUT_PREFIX @ x)"
    "\<not> is_abs (OUTPUT_PREFIX @ x)"
  using assms by (auto simp: OUTPUT_PREFIX_def plain_word_def is_abs_def)

text \<open>A source that passes validation is the resolved form of the requested path, is a
  regular file, and lies, component by component, at or beneath the resolved form of a
  configured root; a directory whose name merely extends a root's name is not enough.\<close>

theorem validate_source_path_contained:
  assumes "validate_source_path os configured path roots = Inr src"
  shows "realpath os path = Inr src \<and> isfile os src \<and>
    (\<exists>base\<in>set (case roots of None \<Rightarrow> configured | Some rs \<Rightarrow> rs). \<exists>r. realpath os base = Inr r \<and>
       is_abs src = is_abs r \<and> prefix (path_words r) (path_words src))"
proof -
  have v: "realpath os path = Inr src" "isfile os src"
    "within_some_root os src (case roots of None \<Rightarrow> configured | Some rs \<Rightarrow> rs) = Inr True"
    using assms by (auto simp: validate_Inr)
  from within_some_root_True [OF v(3)] v(1,2) show ?thesis by (auto simp: is_within_iff)
qed

definition demo_os :: os_view where
  "demo_os = \<lparr>realpath = Inr, isfile = (\<lambda>p. p = ''/media1/Movies/Dune.mkv'' \<or> p = ''/media1x/a.mkv'')\<rparr>"

theorem validate_source_path_contained_witness:
  "validate_source_path demo_os [''/media1''] ''/media1/Movies/Dune.mkv'' None = Inr ''/media1/Movies/Dune.mkv''
   \<and> prefix (path_words ''/media1'') (path_words ''/media1/Movies/Dune.mkv'')"
proof -
  have h: "validate_source_path demo_os [''/media1''] ''/media1/Movies/Dune.mkv'' None =
      Inr ''/media1/Movies/Dune.mkv''" by code_simp
  have "prefix (path_words ''/media1'') (path_words ''/media1/Movies/Dune.mkv'')" by code_simp
  with h validate_source_path_contained [OF h] show ?thesis by blast
qed

text \<open>Every way a path can be refused, in the order of the checks: no root configured, a
  path that cannot be resolved (any exception but ValueError escapes), a path outside every root, a path that is not a regular file.
  Roots that can all be resolved raise nothing else.\<close>

theorem validate_source_path_errors:
  assumes "\<And>base. base \<in> set configured \<Longrightarrow> \<exists>r. realpath os base = Inr r"
  shows "validate_source_path os configured path None = Inl e \<longleftrightarrow>
    (configured = [] \<and> e = PathNotAllowed NoRootsConfigured) \<or>
    (configured \<noteq> [] \<and> (\<exists>e'. realpath os path = Inl e' \<and>
       e = (if e' = ValueError then PathNotAllowed (InvalidSourcePath path) else e'))) \<or>
    (configured \<noteq> [] \<and> (\<exists>p. realpath os path = Inr p \<and>
       (if \<exists>base\<in>set configured. is_within p (projr (realpath os base))
        then \<not> isfile os p \<and> e = SourceNotFound path
        else e = PathNotAllowed (OutsideAllowedRoots configured path))))"
proof -
  have *: "within_some_root os p rs = Inr (\<exists>base\<in>set rs. is_within p (projr (realpath os base)))"
    if "\<And>base. base \<in> set rs \<Longrightarrow> \<exists>r. realpath os base = Inr r" for p rs
    using that by (induction rs) (fastforce split: sum.splits)+
  show ?thesis
    by (cases "realpath os path")
      (auto simp: validate_source_path_def Let_def * [OF assms] split: exc.split)
qed

theorem validate_source_path_errors_witness:
  "validate_source_path demo_os [''/media1''] ''/media1x/a.mkv'' None =
     Inl (PathNotAllowed (OutsideAllowedRoots [''/media1''] ''/media1x/a.mkv''))"
proof -
  have h: "\<And>base. base \<in> set [''/media1''] \<Longrightarrow> \<exists>r. realpath demo_os base = Inr r"
    by (simp add: demo_os_def)
  have "\<not> is_within ''/media1x/a.mkv'' ''/media1''" by code_simp
  then show ?thesis
    using validate_source_path_errors [where os = demo_os and configured = "[''/media1'']"
        and path = "''/media1x/a.mkv''"
        and e = "PathNotAllowed (OutsideAllowedRoots [''/media1''] ''/media1x/a.mkv'')", OF h]
    by (simp add: demo_os_def)
qed

lemma sibling_names:
  assumes "derive_output_path s j e = Inr out" and "derive_staging_path s j e t = Inr st"
  shows "dirname out = dirname s \<and> basename out = OUTPUT_PREFIX @ j @ ''.'' @ e \<and>
         dirname st = dirname s \<and> basename st = OUTPUT_PREFIX @ j @ ''-'' @ t @ ''.'' @ e \<and> st \<noteq> out"
proof -
  have tok: "safe_token j" "safe_token e" "safe_token t"
    using assms by (auto simp: derive_output_Inr derive_staging_Inr)
  have n1: "slash \<notin> set (j @ ''.'' @ e)" and n2: "slash \<notin> set (j @ ''-'' @ t @ ''.'' @ e)"
    using tok [THEN safe_token_plain(1)] by auto
  note sib1 = sibling_dirname_basename [OF derived_name_plain(1,2) [OF n1], of s]
  note sib2 = sibling_dirname_basename [OF derived_name_plain(1,2) [OF n2], of s]
  have "j @ ''-'' @ t @ ''.'' @ e \<noteq> j @ ''.'' @ e"
    by simp
  then have "basename st \<noteq> basename out"
    using sib1 sib2 assms by (auto simp: derive_output_Inr derive_staging_Inr)
  then show ?thesis using sib1 sib2 assms by (auto simp: derive_output_Inr derive_staging_Inr)
qed

lemma derived_basename:
  assumes "derive_output_path s j e = Inr out"
  shows "basename out = OUTPUT_PREFIX @ j @ ''.'' @ e"
proof -
  have tok: "safe_token j" "safe_token e" and out: "out = os_path_join (dirname s) (OUTPUT_PREFIX @ j @ ''.'' @ e)"
    using assms by (simp_all add: derive_output_Inr)
  have "slash \<notin> set (j @ ''.'' @ e)" using tok [THEN safe_token_plain(1)] by auto
  then show ?thesis unfolding out by (intro sibling_dirname_basename(2) derived_name_plain(1,2))
qed

text \<open>The output and the staging file of a job are siblings of the source: same directory,
  a hidden name built from the prefix the sweeping client relies on, the job id, the token and
  the extension, whatever the three tokens are.\<close>

theorem derived_paths_are_siblings:
  assumes "derive_output_path s j e = Inr out" and "derive_staging_path s j e t = Inr st"
  shows "dirname out = dirname s \<and> basename out = OUTPUT_PREFIX @ j @ ''.'' @ e \<and>
         dirname st = dirname s \<and> basename st = OUTPUT_PREFIX @ j @ ''-'' @ t @ ''.'' @ e \<and> st \<noteq> out"
  by (rule sibling_names [OF assms])

theorem derived_paths_are_siblings_witness:
  "derive_output_path ''/media1/Movies/Dune.mkv'' ''abc123'' ''mkv'' = Inr ''/media1/Movies/.hbenc-abc123.mkv''
   \<and> dirname ''/media1/Movies/.hbenc-abc123.mkv'' = dirname ''/media1/Movies/Dune.mkv''"
proof -
  have h1: "derive_output_path ''/media1/Movies/Dune.mkv'' ''abc123'' ''mkv'' =
      Inr ''/media1/Movies/.hbenc-abc123.mkv''" by code_simp
  have h2: "derive_staging_path ''/media1/Movies/Dune.mkv'' ''abc123'' ''mkv'' ''dead'' =
      Inr ''/media1/Movies/.hbenc-abc123-dead.mkv''" by code_simp
  show ?thesis using h1 derived_paths_are_siblings [OF h1 h2] by simp
qed

lemma prefix_dirname_words:
  assumes "prefix rs (path_words s)" and "rs \<noteq> path_words s"
  shows "prefix rs (path_words (dirname s))"
proof -
  have "slash \<notin> set (basename s)"
    using split_last_slash_props [of s] by (cases "split_last_slash s") (auto simp: basename_def)
  then have "length (path_words (basename s)) \<le> 1"
    by (simp add: path_words_def py_split_free)
  then consider "path_words s = path_words (dirname s)"
    | w where "path_words s = path_words (dirname s) @ [w]"
    using path_words_dirname_basename [of s] by (cases "path_words (basename s)") auto
  then show ?thesis using assms by cases auto
qed

lemma is_within_sibling:
  assumes "is_within s r" and "path_words s \<noteq> path_words r" and "slash \<notin> set x"
  shows "is_within (os_path_join (dirname s) (OUTPUT_PREFIX @ x)) r"
  using assms prefix_dirname_words [of "path_words r" s] derived_name_plain [OF assms(3)]
  by (auto simp: is_within_iff is_abs_os_path_join is_abs_dirname path_words_os_path_join
      intro: prefix_prefix)

text \<open>C35. The files a job creates stay inside the allowed roots: when the validated source lies
  strictly beneath a root, so do the output and the staging path derived from it.\<close>

theorem derived_paths_stay_inside_roots:
  assumes "validate_source_path os configured path None = Inr src"
    and "derive_output_path src j e = Inr out" and "derive_staging_path src j e t = Inr st"
  shows "\<exists>base\<in>set configured. \<exists>r. realpath os base = Inr r \<and> is_within src r \<and>
    (path_words src \<noteq> path_words r \<longrightarrow> is_within out r \<and> is_within st r)"
proof -
  have "within_some_root os src configured = Inr True" using assms(1) by (simp add: validate_Inr)
  then obtain base r where r: "base \<in> set configured" "realpath os base = Inr r" "is_within src r"
    using within_some_root_True by blast
  have tok: "safe_token j" "safe_token e" "safe_token t"
    using assms(2,3) by (auto simp: derive_output_Inr derive_staging_Inr)
  have "slash \<notin> set (j @ ''.'' @ e)" "slash \<notin> set (j @ ''-'' @ t @ ''.'' @ e)"
    using tok [THEN safe_token_plain(1)] by auto
  then have "is_within out r \<and> is_within st r" if "path_words src \<noteq> path_words r"
    using that r(3) assms(2,3) is_within_sibling by (auto simp: derive_output_Inr derive_staging_Inr)
  with r show ?thesis by blast
qed

theorem derived_paths_stay_inside_roots_witness:
  "\<exists>r. realpath demo_os ''/media1'' = Inr r \<and> is_within ''/media1/Movies/.hbenc-abc123.mkv'' r"
proof -
  have h1: "validate_source_path demo_os [''/media1''] ''/media1/Movies/Dune.mkv'' None =
      Inr ''/media1/Movies/Dune.mkv''" by code_simp
  have h2: "derive_output_path ''/media1/Movies/Dune.mkv'' ''abc123'' ''mkv'' =
      Inr ''/media1/Movies/.hbenc-abc123.mkv''" by code_simp
  have h3: "derive_staging_path ''/media1/Movies/Dune.mkv'' ''abc123'' ''mkv'' ''dead'' =
      Inr ''/media1/Movies/.hbenc-abc123-dead.mkv''" by code_simp
  have "path_words ''/media1/Movies/Dune.mkv'' \<noteq> path_words ''/media1''" by code_simp
  then show ?thesis
    using derived_paths_stay_inside_roots [OF h1 h2 h3] by (auto simp: demo_os_def)
qed

text \<open>Two jobs never share a file: job ids without a dash (the service uses uuid4().hex)
  give disjoint output and staging paths, even for the same source and the same token.\<close>

theorem derived_paths_disjoint:
  assumes "derive_output_path s j e = Inr out" and "derive_staging_path s j e t = Inr st"
    and "derive_output_path s j' e' = Inr out'" and "derive_staging_path s j' e' t' = Inr st'"
    and "CHR ''-'' \<notin> set j" and "CHR ''-'' \<notin> set j'" and "j \<noteq> j'"
  shows "{out, st} \<inter> {out', st'} = {}"
proof -
  have tok: "safe_token j" "safe_token e" "safe_token t" "safe_token j'" "safe_token e'" "safe_token t'"
    using assms(1-4) by (auto simp: derive_output_Inr derive_staging_Inr)
  note dot = tok [THEN safe_token_plain(2)]
  note b = sibling_names [OF assms(1,2)] sibling_names [OF assms(3,4)]
  have "j @ CHR ''.'' # e \<noteq> j' @ CHR ''.'' # e'"
    using append_sep_inject [OF dot(1) dot(4)] assms(7) by auto
  moreover have "j @ CHR ''-'' # x \<noteq> j' @ CHR ''-'' # y" for x y
    using append_sep_inject [OF assms(5,6)] assms(7) by auto
  moreover have "j @ CHR ''.'' # e \<noteq> (j' @ CHR ''-'' # t') @ CHR ''.'' # e'"
    using append_sep_inject [of "CHR ''.''" j "j' @ CHR ''-'' # t'" e e'] dot assms(5) by auto
  moreover have "(j @ CHR ''-'' # t) @ CHR ''.'' # e \<noteq> j' @ CHR ''.'' # e'"
    using append_sep_inject [of "CHR ''.''" "j @ CHR ''-'' # t" j' e e'] dot assms(6) by auto
  ultimately have "basename out \<noteq> basename out'" "basename st \<noteq> basename st'"
    "basename out \<noteq> basename st'" "basename st \<noteq> basename out'"
    using b by auto
  then show ?thesis by auto
qed

theorem derived_paths_disjoint_witness:
  "{''/m/.hbenc-a1.mkv'', ''/m/.hbenc-a1-t.mkv''} \<inter> {''/m/.hbenc-b2.mp4'', ''/m/.hbenc-b2-t.mp4''} = {}"
  by (rule derived_paths_disjoint [of "''/m/x.mkv''" "''a1''" "''mkv''" _ "''t''" _ "''b2''" "''mp4''" _ "''t''"])
    (code_simp+)

end
