(* ===== verification/Presets.thy ===== *)
theory Presets
  imports Paths
begin

text \<open>
  Preset documents (app/presets.py): the walk over the folder tree, the lookup of a preset by
  name, and the three fields of a preset that the service reads.  A document and a preset are
  dictionaries of JSON values.
\<close>

section \<open>The walk over the tree\<close>

text \<open>The nested function walk of iter_presets on a list of nodes; anything that is not a list
  holds no nodes, and a node that is not a dictionary is skipped.\<close>

function (sequential) walk :: "json list \<Rightarrow> dict list" where
  "walk [] = []"
| "walk (JDict node # nodes) =
     (if truthy (dget node ''Folder'')
      then (case dget node ''ChildrenArray'' of JList children \<Rightarrow> walk children | _ \<Rightarrow> [])
      else [node]) @ walk nodes"
| "walk (_ # nodes) = walk nodes"
  by pat_completeness auto
termination
  by (relation "measure (size_list size)") (auto dest: size_dget)

definition iter_presets :: "dict \<Rightarrow> dict list" where
  "iter_presets doc = (case dget doc ''PresetList'' of JList nodes \<Rightarrow> walk nodes | _ \<Rightarrow> [])"

fun first_named :: "string \<Rightarrow> dict list \<Rightarrow> dict option" where
  "first_named name [] = None"
| "first_named name (p # ps) =
     (if dget p ''PresetName'' = JStr name then Some p else first_named name ps)"

definition find_preset :: "dict \<Rightarrow> string \<Rightarrow> dict result" where
  "find_preset doc name =
     (case first_named name (iter_presets doc) of
        Some p \<Rightarrow> Inr p
      | None \<Rightarrow> Inl (PresetError (PresetNotFound name)))"

section \<open>Fields of a preset\<close>

definition preset_encoder :: "dict \<Rightarrow> string result" where
  "preset_encoder preset =
     (case dget preset ''VideoEncoder'' of
        JStr enc \<Rightarrow> if enc = [] then Inl (PresetError (NoVideoEncoder (dget preset ''PresetName'')))
                    else Inr enc
      | _ \<Rightarrow> Inl (PresetError (NoVideoEncoder (dget preset ''PresetName''))))"

definition preset_video_preset :: "dict \<Rightarrow> string" where
  "preset_video_preset preset =
     (case dget preset ''VideoPreset'' of JStr v \<Rightarrow> py_strip v | _ \<Rightarrow> [])"

definition FORMAT_TO_EXTENSION :: "(string \<times> string) list" where
  "FORMAT_TO_EXTENSION = [(''av_mkv'', ''mkv''), (''av_mp4'', ''mp4''), (''av_webm'', ''webm'')]"

text \<open>The table is looked up with str(file_format); the rendering of a value that is not a
  string is never one of its keys.\<close>

definition preset_extension :: "dict \<Rightarrow> string result" where
  "preset_extension preset =
     (let file_format = dget preset ''FileFormat'' in
      case (case file_format of JStr s \<Rightarrow> map_of FORMAT_TO_EXTENSION s | _ \<Rightarrow> None) of
        Some extension \<Rightarrow> Inr extension
      | None \<Rightarrow> Inl (PresetError (UnsupportedFormat (dget preset ''PresetName'') file_format)))"

section \<open>Specification of the walk\<close>

text \<open>A leaf of a node list: a dictionary that is no folder, in the list itself or in the
  children of a folder of the list, to any depth.\<close>

inductive leaf_of :: "json list \<Rightarrow> dict \<Rightarrow> bool" where
  leaf_here: "JDict p \<in> set nodes \<Longrightarrow> \<not> truthy (dget p ''Folder'') \<Longrightarrow> leaf_of nodes p"
| leaf_inside: "JDict f \<in> set nodes \<Longrightarrow> truthy (dget f ''Folder'') \<Longrightarrow>
     dget f ''ChildrenArray'' = JList children \<Longrightarrow> leaf_of children p \<Longrightarrow> leaf_of nodes p"

inductive_simps leaf_of_iff: "leaf_of nodes p"

lemma leaf_of_mono: "leaf_of nodes p \<Longrightarrow> set nodes \<subseteq> set nodes' \<Longrightarrow> leaf_of nodes' p"
  by (cases rule: leaf_of.cases) (auto intro: leaf_of.intros)

lemma walk_sound: "p \<in> set (walk nodes) \<Longrightarrow> leaf_of nodes p"
proof (induction nodes rule: walk.induct)
  case (2 node nodes)
  from "2.prems" consider (rest) "p \<in> set (walk nodes)"
    | (leaf) "\<not> truthy (dget node ''Folder'')" "p = node"
    | (folder) children where "truthy (dget node ''Folder'')"
        "dget node ''ChildrenArray'' = JList children" "p \<in> set (walk children)"
    by (cases "dget node ''ChildrenArray''") (auto split: if_splits)
  then show ?case
  proof cases
    case rest
    then show ?thesis using "2.IH"(2) by (auto intro: leaf_of_mono)
  next
    case leaf
    then show ?thesis by (auto intro: leaf_here)
  next
    case folder
    then show ?thesis using "2.IH"(1) by (auto intro: leaf_inside)
  qed
qed (auto intro: leaf_of_mono)

lemma walk_append: "walk (xs @ ys) = walk xs @ walk ys"
  by (induction xs rule: walk.induct) auto

lemma walk_complete: "leaf_of nodes p \<Longrightarrow> p \<in> set (walk nodes)"
  by (induction rule: leaf_of.induct) (auto simp: walk_append dest!: split_list)

lemma walk_leaf_iff: "p \<in> set (walk nodes) \<longleftrightarrow> leaf_of nodes p"
  using walk_sound walk_complete by blast

lemma first_named_Some:
  "first_named name ps = Some p \<longleftrightarrow>
     (\<exists>before after. ps = before @ p # after \<and> dget p ''PresetName'' = JStr name \<and>
        (\<forall>q\<in>set before. dget q ''PresetName'' \<noteq> JStr name))"
proof
  show "first_named name ps = Some p \<Longrightarrow> \<exists>before after. ps = before @ p # after \<and>
      dget p ''PresetName'' = JStr name \<and> (\<forall>q\<in>set before. dget q ''PresetName'' \<noteq> JStr name)"
  proof (induction ps)
    case (Cons q ps)
    show ?case
    proof (cases "dget q ''PresetName'' = JStr name")
      case True
      then have "q = p" using Cons.prems by simp
      then show ?thesis using True by (intro exI [of _ "[]"] exI [of _ ps]) simp
    next
      case False
      then obtain before after where "ps = before @ p # after" "dget p ''PresetName'' = JStr name"
        "\<forall>r\<in>set before. dget r ''PresetName'' \<noteq> JStr name"
        using Cons by auto
      then show ?thesis using False by (metis append_Cons set_ConsD)
    qed
  qed simp
next
  have "first_named name (before @ p # after) = Some p"
    if "dget p ''PresetName'' = JStr name" "\<forall>q\<in>set before. dget q ''PresetName'' \<noteq> JStr name"
    for before after
    using that by (induction before) auto
  then show "\<exists>before after. ps = before @ p # after \<and> dget p ''PresetName'' = JStr name \<and>
      (\<forall>q\<in>set before. dget q ''PresetName'' \<noteq> JStr name) \<Longrightarrow> first_named name ps = Some p"
    by blast
qed

lemma first_named_None:
  "first_named name ps = None \<longleftrightarrow> (\<forall>p\<in>set ps. dget p ''PresetName'' \<noteq> JStr name)"
  by (induction ps) auto

lemma iter_presets_no_folder:
  assumes "p \<in> set (iter_presets doc)"
  shows "\<not> truthy (dget p ''Folder'')"
proof -
  have "leaf_of nodes p \<Longrightarrow> \<not> truthy (dget p ''Folder'')" for nodes
    by (induction rule: leaf_of.induct) auto
  then show ?thesis using assms by (auto simp: iter_presets_def walk_leaf_iff split: json.splits)
qed

section \<open>Theorems\<close>

text \<open>C39. The presets of a document are exactly its leaves: every dictionary that is not a
  folder and is reached from PresetList through folders, at any depth, and nothing else.\<close>

theorem iter_presets_are_the_leaves:
  "p \<in> set (iter_presets doc) \<longleftrightarrow>
     (\<exists>nodes. dget doc ''PresetList'' = JList nodes \<and> leaf_of nodes p)"
  by (cases "dget doc ''PresetList''") (auto simp: iter_presets_def walk_leaf_iff)

text \<open>Lookup by name returns the first preset of that name in document order, and fails
  exactly when no leaf carries the name; a folder is never returned.\<close>

theorem find_preset_first_match:
  "(find_preset doc name = Inr p \<longleftrightarrow>
      (\<exists>before after. iter_presets doc = before @ p # after \<and> dget p ''PresetName'' = JStr name \<and>
         \<not> truthy (dget p ''Folder'') \<and>
         filter (\<lambda>q. dget q ''PresetName'' = JStr name) before = []))
   \<and> (find_preset doc name = Inl (PresetError (PresetNotFound name)) \<longleftrightarrow>
      filter (\<lambda>q. dget q ''PresetName'' = JStr name) (iter_presets doc) = [])"
proof -
  have some: "find_preset doc name = Inr p \<longleftrightarrow> first_named name (iter_presets doc) = Some p"
    by (simp add: find_preset_def split: option.splits)
  have none: "find_preset doc name = Inl (PresetError (PresetNotFound name)) \<longleftrightarrow>
      first_named name (iter_presets doc) = None"
    by (simp add: find_preset_def split: option.splits)
  have "iter_presets doc = before @ p # after \<Longrightarrow> \<not> truthy (dget p ''Folder'')" for before after
    using iter_presets_no_folder [of p doc] by simp
  then show ?thesis
    unfolding some none first_named_Some first_named_None filter_empty_conv by blast
qed

text \<open>The three fields of a preset: the encoder is the non-empty string under VideoEncoder
  or an error; the speed preset is the stripped string under VideoPreset and blank otherwise,
  never an error; the extension exists exactly for the three known muxers.\<close>

theorem preset_fields:
  "(preset_encoder p = Inr enc \<longleftrightarrow> dget p ''VideoEncoder'' = JStr enc \<and> enc \<noteq> [])
   \<and> (preset_encoder p = Inl e \<longleftrightarrow>
        e = PresetError (NoVideoEncoder (dget p ''PresetName'')) \<and>
        (\<nexists>s. dget p ''VideoEncoder'' = JStr s \<and> s \<noteq> []))
   \<and> (preset_extension p = Inr ext \<longleftrightarrow>
        (dget p ''FileFormat'', ext) \<in>
          {(JStr ''av_mkv'', ''mkv''), (JStr ''av_mp4'', ''mp4''), (JStr ''av_webm'', ''webm'')})
   \<and> (preset_video_preset p \<noteq> [] \<longleftrightarrow>
        (\<exists>s. dget p ''VideoPreset'' = JStr s \<and> filter (\<lambda>c. \<not> is_space c) s \<noteq> []))"
proof -
  have "preset_encoder p = Inr enc \<longleftrightarrow> dget p ''VideoEncoder'' = JStr enc \<and> enc \<noteq> []"
    by (auto simp: preset_encoder_def split: json.splits)
  moreover have "preset_encoder p = Inl e \<longleftrightarrow>
        e = PresetError (NoVideoEncoder (dget p ''PresetName'')) \<and>
        (\<nexists>s. dget p ''VideoEncoder'' = JStr s \<and> s \<noteq> [])"
    by (cases "dget p ''VideoEncoder''") (auto simp: preset_encoder_def)
  moreover have "preset_extension p = Inr ext \<longleftrightarrow>
        (dget p ''FileFormat'', ext) \<in>
          {(JStr ''av_mkv'', ''mkv''), (JStr ''av_mp4'', ''mp4''), (JStr ''av_webm'', ''webm'')}"
    by (cases "dget p ''FileFormat''")
      (auto simp: preset_extension_def FORMAT_TO_EXTENSION_def Let_def split: option.splits if_splits)
  moreover have "preset_video_preset p \<noteq> [] \<longleftrightarrow>
        (\<exists>s. dget p ''VideoPreset'' = JStr s \<and> filter (\<lambda>c. \<not> is_space c) s \<noteq> [])"
    by (cases "dget p ''VideoPreset''")
      (auto simp: preset_video_preset_def py_strip_eq_Nil filter_empty_conv)
  ultimately show ?thesis by blast
qed

text \<open>An extension that a preset yields is always a safe token, so deriving the output path can
  only fail on the job id.\<close>

lemma preset_extension_safe: "preset_extension p = Inr ext \<Longrightarrow> safe_token ext"
proof -
  have "safe_token ''mkv''" "safe_token ''mp4''" "safe_token ''webm''" by code_simp+
  then show "preset_extension p = Inr ext \<Longrightarrow> safe_token ext"
    by (auto simp: preset_extension_def FORMAT_TO_EXTENSION_def Let_def
        split: json.splits option.splits if_splits)
qed

end
