(* ===== verification/Encoders.thy ===== *)
theory Encoders
  imports Errors
begin

text \<open>
  Encoder availability (app/encoders.py): the two parsers of HandBrakeCLI's text output, and
  the module's cached probes with the generation counter that discards a probe overtaken by a
  reset.  A subprocess call is a parameter that answers the command line with what
  subprocess.run returns or raises.
\<close>

section \<open>Subprocess results\<close>

datatype run_result =
    Ran int string string   \<comment> \<open>return code, stdout, stderr\<close>
  | RunOSError
  | RunSubprocessError
  | RunValueError           \<comment> \<open>embedded NUL in the command, or undecodable output in strict mode\<close>

type_synonym runner = "string list \<Rightarrow> run_result"

section \<open>Line patterns\<close>

definition after_prefix :: "string \<Rightarrow> string \<Rightarrow> string option" where
  "after_prefix p s = (if prefix p s then Some (drop (length p) s) else None)"

definition ENCODER_FLAG :: "string \<Rightarrow> bool" where
  "ENCODER_FLAG line =
     (case after_prefix ''-e,'' (py_lstrip line) of
        None \<Rightarrow> False
      | Some r \<Rightarrow> (case after_prefix ''--encoder'' (py_lstrip r) of
            None \<Rightarrow> False
          | Some [] \<Rightarrow> True
          | Some (c # _) \<Rightarrow> \<not> is_word c))"

definition INDENTED_VALUE :: "string \<Rightarrow> string option" where
  "INDENTED_VALUE line =
     (let indent = takeWhile is_space line;
          body = dropWhile is_space line;
          val = takeWhile (\<lambda>c. \<not> is_space c) body;
          tail = dropWhile (\<lambda>c. \<not> is_space c) body
      in if 4 \<le> length indent \<and> val \<noteq> [] \<and> list_all is_space tail then Some val else None)"

definition ANY_FLAG :: "string \<Rightarrow> bool" where
  "ANY_FLAG line = prefix ''-'' (py_lstrip line)"

definition PRESET_HEADER :: "string \<Rightarrow> string option" where
  "PRESET_HEADER line =
     (case after_prefix ''Available --encoder-preset values for '' line of
        Some (q # r) \<Rightarrow>
          if q = CHR 0x27 then
            (let name = takeWhile (\<lambda>c. c \<noteq> CHR 0x27) r in
             if prefix (CHR 0x27 # '' encoder:'') (drop (length name) r) then Some name else None)
          else None
      | _ \<Rightarrow> None)"

section \<open>The two parsers\<close>

fun encoder_lines :: "bool \<Rightarrow> string list \<Rightarrow> string list \<Rightarrow> string list" where
  "encoder_lines collecting names [] = names"
| "encoder_lines collecting names (line # lines) =
     (if \<not> collecting then encoder_lines (ENCODER_FLAG line) names lines
      else if ANY_FLAG line then names
      else (case INDENTED_VALUE line of
          Some v \<Rightarrow> encoder_lines collecting (names @ [v]) lines
        | None \<Rightarrow> encoder_lines collecting names lines))"

definition parse_encoder_list :: "string \<Rightarrow> string list" where
  "parse_encoder_list output = encoder_lines False [] (py_splitlines output)"

fun preset_lines :: "string \<Rightarrow> bool \<Rightarrow> string list \<Rightarrow> string list \<Rightarrow> string list" where
  "preset_lines encoder collecting names [] = names"
| "preset_lines encoder collecting names (line # lines) =
     (if \<not> collecting then
        (case PRESET_HEADER line of
           Some e \<Rightarrow> if e \<noteq> encoder then [] else preset_lines encoder True names lines
         | None \<Rightarrow> preset_lines encoder False names lines)
      else if py_strip line = [] then preset_lines encoder collecting names lines
      else if \<not> prefix '' '' line then names
      else (case INDENTED_VALUE line of
          Some v \<Rightarrow> preset_lines encoder collecting (names @ [v]) lines
        | None \<Rightarrow> preset_lines encoder collecting names lines))"

definition parse_preset_list :: "string \<Rightarrow> string \<Rightarrow> string list" where
  "parse_preset_list output encoder = preset_lines encoder False [] (py_splitlines output)"

section \<open>The cached probes\<close>

record enc_state =
  enc_cache :: "string list option"
  preset_cache :: "(string \<times> string list) list"
  generation :: nat

definition enc_initial :: enc_state where
  "enc_initial = \<lparr>enc_cache = None, preset_cache = [], generation = 0\<rparr>"

definition reset_cache :: "enc_state \<Rightarrow> enc_state" where
  "reset_cache s = s\<lparr>enc_cache := None, preset_cache := [], generation := Suc (generation s)\<rparr>"

text \<open>Each probe has a first critical section that answers from the cache or reads the
  generation, the subprocess call outside the lock, and a last critical section that stores the
  answer only if the generation has not moved.\<close>

definition available_store :: "enc_state \<Rightarrow> nat \<Rightarrow> string list \<Rightarrow> enc_state" where
  "available_store s gen names =
     (if generation s = gen then s\<lparr>enc_cache := Some names\<rparr> else s)"

definition preset_store :: "enc_state \<Rightarrow> nat \<Rightarrow> string \<Rightarrow> string list \<Rightarrow> enc_state" where
  "preset_store s gen encoder names =
     (if generation s = gen
      then s\<lparr>preset_cache := AList.update encoder names (preset_cache s)\<rparr> else s)"

definition probe_encoders :: "run_result \<Rightarrow> string list result" where
  "probe_encoders r =
     (case r of
        Ran rc out err \<Rightarrow> Inr (if rc = 0 then parse_encoder_list (out @ err) else [])
      | RunOSError \<Rightarrow> Inr []
      | RunSubprocessError \<Rightarrow> Inr []
      | RunValueError \<Rightarrow> Inl ValueError)"

definition probe_presets :: "string \<Rightarrow> run_result \<Rightarrow> string list result" where
  "probe_presets encoder r =
     (case r of
        Ran rc out err \<Rightarrow> Inr (if rc = 0 then parse_preset_list (out @ err) encoder else [])
      | RunOSError \<Rightarrow> Inr []
      | RunSubprocessError \<Rightarrow> Inr []
      | RunValueError \<Rightarrow> Inl ValueError)"

text \<open>The whole calls, without an interleaved reset.\<close>

definition available_encoders :: "string \<Rightarrow> runner \<Rightarrow> enc_state \<Rightarrow> string list result \<times> enc_state" where
  "available_encoders bin run s =
     (case enc_cache s of
        Some names \<Rightarrow> (Inr names, s)
      | None \<Rightarrow>
          (let gen = generation s in
           case probe_encoders (run [bin, ''--help'']) of
             Inl e \<Rightarrow> (Inl e, s)
           | Inr names \<Rightarrow> (Inr names, available_store s gen names)))"

definition is_available :: "string \<Rightarrow> runner \<Rightarrow> enc_state \<Rightarrow> string \<Rightarrow> bool result \<times> enc_state" where
  "is_available bin run s encoder =
     (case available_encoders bin run s of
        (Inl e, s') \<Rightarrow> (Inl e, s')
      | (Inr names, s') \<Rightarrow> (Inr (encoder \<in> set names), s'))"

definition encoder_presets ::
    "string \<Rightarrow> runner \<Rightarrow> enc_state \<Rightarrow> string \<Rightarrow> string list result \<times> enc_state" where
  "encoder_presets bin run s encoder =
     (case map_of (preset_cache s) encoder of
        Some names \<Rightarrow> (Inr names, s)
      | None \<Rightarrow>
          (let gen = generation s in
           case probe_presets encoder (run [bin, ''--encoder-preset-list'', encoder]) of
             Inl e \<Rightarrow> (Inl e, s)
           | Inr names \<Rightarrow> (Inr names, preset_store s gen encoder names)))"

section \<open>The generation cache as an interface\<close>

text \<open>What both caches promise: a store with the current generation is what lookup returns, a
  store with another generation changes nothing, a reset forgets everything and moves on to the
  next generation.  The interleavings of concurrent probes and resets are the lists of the
  critical sections that change the state.\<close>

datatype ('k, 'v) cache_op = CReset | CStore nat 'k 'v

fun cache_run ::
    "('s \<Rightarrow> 's) \<Rightarrow> ('s \<Rightarrow> nat \<Rightarrow> 'k \<Rightarrow> 'v \<Rightarrow> 's) \<Rightarrow> 's \<Rightarrow> ('k, 'v) cache_op list \<Rightarrow> 's" where
  "cache_run rst st s [] = s"
| "cache_run rst st s (CReset # ops) = cache_run rst st (rst s) ops"
| "cache_run rst st s (CStore g k v # ops) = cache_run rst st (st s g k v) ops"

locale gen_cache =
  fixes lookup :: "'s \<Rightarrow> 'k \<Rightarrow> 'v option"
    and gen :: "'s \<Rightarrow> nat"
    and rst :: "'s \<Rightarrow> 's"
    and st :: "'s \<Rightarrow> nat \<Rightarrow> 'k \<Rightarrow> 'v \<Rightarrow> 's"
  assumes lookup_reset: "lookup (rst s) k = None"
    and gen_reset: "gen (rst s) = Suc (gen s)"
    and lookup_store: "lookup (st s g k v) k' =
      (if g = gen s \<and> k' = k then Some v else lookup s k')"
    and gen_store: "gen (st s g k v) = gen s"
begin

lemma run_origin:
  "lookup (cache_run rst st s ops) k = Some v \<Longrightarrow>
     lookup s k = Some v \<or> (\<exists>g\<ge>gen s. CStore g k v \<in> set ops)"
proof (induction ops arbitrary: s)
  case (Cons op ops)
  show ?case
  proof (cases op)
    case CReset
    then show ?thesis using Cons.IH [of "rst s"] Cons.prems by (auto simp: lookup_reset gen_reset)
  next
    case (CStore g k' v')
    then show ?thesis using Cons.IH [of "st s g k' v'"] Cons.prems
      by (auto simp: lookup_store gen_store split: if_splits)
  qed
qed simp

lemma stale_probes_forgotten:
  assumes "\<And>g k' v. CStore g k' v \<in> set ops \<Longrightarrow> g \<le> gen s"
  shows "lookup (cache_run rst st (rst s) ops) k = None"
proof (cases "lookup (cache_run rst st (rst s) ops) k")
  case (Some v)
  from run_origin [OF Some] show ?thesis using assms by (fastforce simp: lookup_reset gen_reset)
qed simp

end

text \<open>The two caches of the module as one: the key None is the encoder list, the key Some e the speed
  presets of e.  They share the lock and the generation.\<close>

definition cached :: "enc_state \<Rightarrow> string option \<Rightarrow> string list option" where
  "cached s key = (case key of None \<Rightarrow> enc_cache s | Some e \<Rightarrow> map_of (preset_cache s) e)"

definition store_probe :: "enc_state \<Rightarrow> nat \<Rightarrow> string option \<Rightarrow> string list \<Rightarrow> enc_state" where
  "store_probe s gen key names =
     (case key of None \<Rightarrow> available_store s gen names | Some e \<Rightarrow> preset_store s gen e names)"

interpretation probe_gc: gen_cache cached generation reset_cache store_probe
  by unfold_locales
    (auto simp: cached_def store_probe_def reset_cache_def available_store_def preset_store_def split: option.split)

section \<open>What the parsers compute\<close>

abbreviation values_of :: "string list \<Rightarrow> string list" where
  "values_of lines \<equiv> List.map_filter INDENTED_VALUE lines"

lemma encoder_lines_collecting:
  "encoder_lines True names lines = names @ values_of (takeWhile (\<lambda>l. \<not> ANY_FLAG l) lines)"
  by (induction lines arbitrary: names) (auto simp: List.map_filter_simps split: option.splits)

lemma encoder_lines_start:
  "encoder_lines False names lines =
     names @ values_of (takeWhile (\<lambda>l. \<not> ANY_FLAG l) (tl (dropWhile (\<lambda>l. \<not> ENCODER_FLAG l) lines)))"
  by (induction lines) (auto simp: encoder_lines_collecting List.map_filter_simps)

lemma preset_lines_collecting:
  "preset_lines e True names lines =
     names @ values_of (takeWhile (\<lambda>l. py_strip l = [] \<or> prefix '' '' l) lines)"
proof (induction lines arbitrary: names)
  case (Cons l ls)
  have "INDENTED_VALUE l = None" if "py_strip l = []"
  proof -
    have "dropWhile is_space l = []" using that by (simp only: py_strip_eq_Nil dropWhile_eq_Nil_conv)
    then show ?thesis by (simp only: INDENTED_VALUE_def Let_def takeWhile.simps) simp
  qed
  then show ?case using Cons by (auto simp: List.map_filter_simps split: option.splits)
qed (simp add: List.map_filter_simps)

lemma preset_lines_skip:
  "\<forall>l\<in>set noise. PRESET_HEADER l = None \<Longrightarrow>
     preset_lines e False names (noise @ lines) = preset_lines e False names lines"
  by (induction noise) auto

lemma INDENTED_VALUE_token: "INDENTED_VALUE l = Some v \<Longrightarrow> v \<noteq> [] \<and> (\<forall>c\<in>set v. \<not> is_space c)"
  by (auto simp: INDENTED_VALUE_def Let_def dest: set_takeWhileD split: if_splits)

lemma INDENTED_VALUE_indent:
  assumes "v \<noteq> []" and "\<forall>c\<in>set v. \<not> is_space c" and "4 \<le> k"
  shows "INDENTED_VALUE (replicate k CHR '' '' @ v) = Some v"
proof -
  have tw: "takeWhile is_space (replicate k CHR '' '' @ v) = replicate k CHR '' ''"
    "dropWhile is_space (replicate k CHR '' '' @ v) = v"
    using assms(1,2) by (cases v; simp add: takeWhile_append dropWhile_append)+
  moreover have "takeWhile (\<lambda>c. \<not> is_space c) v = v" "dropWhile (\<lambda>c. \<not> is_space c) v = []"
    using assms(2) by (simp_all add: takeWhile_eq_all_conv dropWhile_eq_Nil_conv)
  ultimately show ?thesis using assms(1,3) by (simp only: INDENTED_VALUE_def Let_def) simp
qed

subsection \<open>Lines of printed text\<close>

definition print_lines :: "string list \<Rightarrow> string" where
  "print_lines ls = concat (map (\<lambda>l. l @ [CHR 0x0A]) ls)"

lemma linebreak_LF [simp]: "is_linebreak CHR 0x0A" "is_linebreak CHR 0x0D"
  by (simp_all add: char_class_defs)

lemma splitlines_from_line:
  "\<forall>c\<in>set l. \<not> is_linebreak c \<Longrightarrow>
     splitlines_from cur (l @ CHR 0x0A # rest) = (rev cur @ l) # splitlines_from [] rest"
proof (induction l arbitrary: cur)
  case Nil
  then show ?case by (cases rest) auto
next
  case (Cons c l)
  have "c \<noteq> CHR 0x0D" "\<not> is_linebreak c" using Cons.prems by auto
  then show ?case using Cons.IH [of "c # cur"] Cons.prems by (cases l) auto
qed

lemma splitlines_print_lines:
  "\<forall>l\<in>set ls. \<forall>c\<in>set l. \<not> is_linebreak c \<Longrightarrow> py_splitlines (print_lines ls) = ls"
  by (induction ls) (auto simp: py_splitlines_def print_lines_def splitlines_from_line)

section \<open>Theorems\<close>

text \<open>The encoder list is read positionally: the single-word lines indented by four or
  more, in order, from the line after the first encoder flag up to the next flag line.\<close>

theorem parse_encoder_list_block:
  "parse_encoder_list out =
     values_of (takeWhile (\<lambda>l. \<not> ANY_FLAG l)
       (tl (dropWhile (\<lambda>l. \<not> ENCODER_FLAG l) (py_splitlines out))))"
  by (simp add: parse_encoder_list_def encoder_lines_start)

text \<open>C38. The speed presets are recovered from what HandBrakeCLI prints: noise, the header for
  the encoder, the indented names, and a closing line that is not indented give exactly the
  names; a header for any other encoder gives the empty list.\<close>

theorem parse_preset_list_roundtrip:
  assumes noise: "\<forall>l\<in>set noise. PRESET_HEADER l = None"
    and header: "PRESET_HEADER h = Some e"
    and names: "\<forall>v\<in>set names. v \<noteq> [] \<and> (\<forall>c\<in>set v. \<not> is_space c)"
    and stop: "stop \<noteq> []" "\<not> is_space (hd stop)"
    and one_line: "\<forall>l\<in>set (noise @ h # stop # trailer). \<forall>c\<in>set l. \<not> is_linebreak c"
    and k: "4 \<le> k"
  shows "parse_preset_list
      (print_lines (noise @ h # map (\<lambda>v. replicate k CHR '' '' @ v) names @ stop # trailer)) enc =
    (if e = enc then names else [])"
proof -
  let ?body = "map (\<lambda>v. replicate k CHR '' '' @ v) names"
  have "\<forall>l\<in>set (noise @ h # ?body @ stop # trailer). \<forall>c\<in>set l. \<not> is_linebreak c"
    using one_line names linebreak_is_space
    by (auto simp: ball_Un) (auto simp: char_class_defs)
  then have sp: "py_splitlines (print_lines (noise @ h # ?body @ stop # trailer)) =
      noise @ h # ?body @ stop # trailer" by (rule splitlines_print_lines)
  have stop': "\<not> (py_strip stop = [] \<or> prefix '' '' stop)"
    using stop by (cases stop) (auto simp: py_strip_eq_Nil)
  have "takeWhile (\<lambda>l. py_strip l = [] \<or> prefix '' '' l) (?body @ stop # trailer) = ?body"
  proof -
    have "\<forall>l\<in>set ?body. prefix '' '' l" using k by (cases k) auto
    then show ?thesis using stop' by (simp add: takeWhile_append)
  qed
  moreover have "values_of ?body = names"
    using names k by (induction names) (auto simp: List.map_filter_simps INDENTED_VALUE_indent)
  ultimately show ?thesis
    using header by (simp add: parse_preset_list_def sp preset_lines_skip [OF noise] preset_lines_collecting)
qed

text \<open>The shape of tests/fixtures/encoder-preset-list-qsv_h265.txt: noise, header, three names,
  closing line.  Asked about another encoder, the same output yields nothing.\<close>

theorem parse_preset_list_roundtrip_witness:
  "\<exists>out. parse_preset_list out ''qsv_h265'' = [''speed'', ''balanced'', ''quality''] \<and>
         parse_preset_list out ''x264'' = []"
proof -
  let ?h = "''Available --encoder-preset values for '' @ CHR 0x27 # ''qsv_h265'' @ CHR 0x27 # '' encoder:''"
  have "parse_preset_list
      (print_lines ([''Cannot load libnvidia-encode.so.1''] @ ?h #
        map (\<lambda>v. replicate 4 CHR '' '' @ v) [''speed'', ''balanced'', ''quality''] @
        ''HandBrake has exited.'' # [])) enc =
      (if ''qsv_h265'' = enc then [''speed'', ''balanced'', ''quality''] else [])" for enc
    by (rule parse_preset_list_roundtrip) code_simp+
  from this [of "''qsv_h265''"] this [of "''x264''"] show ?thesis by auto
qed

text \<open>C37. No stale answer survives a reset: after reset_cache, and any interleaving of further resets and of
  probes that finish, every answer in either cache was stored, for that very key, by a probe begun in a
  later generation than the one the reset ended; so if only probes begun before the reset finish,
  both caches are still empty.\<close>

theorem reset_discards_inflight_probes:
  assumes "s' = cache_run reset_cache store_probe (reset_cache s) ops"
  shows "(\<forall>names. enc_cache s' = Some names \<longrightarrow> (\<exists>g>generation s. CStore g None names \<in> set ops)) \<and>
    (\<forall>e names. map_of (preset_cache s') e = Some names \<longrightarrow> (\<exists>g>generation s. CStore g (Some e) names \<in> set ops)) \<and>
    ((\<forall>g k v. CStore g k v \<in> set ops \<longrightarrow> g \<le> generation s) \<longrightarrow>
       enc_cache s' = None \<and> (\<forall>e. map_of (preset_cache s') e = None))"
proof -
  have origin: "\<exists>g>generation s. CStore g key names \<in> set ops" if "cached s' key = Some names" for key names
    using probe_gc.run_origin [of "reset_cache s" ops key names] that
    by (auto simp: assms probe_gc.lookup_reset probe_gc.gen_reset Suc_le_eq)
  have stale: "cached s' key = None" if "\<forall>g k v. CStore g k v \<in> set ops \<longrightarrow> g \<le> generation s" for key
    unfolding assms by (rule probe_gc.stale_probes_forgotten) (use that in blast)
  show ?thesis
    using origin [of None] origin [of "Some e" for e] stale [of None] stale [of "Some e" for e]
    by (simp add: cached_def)
qed

theorem reset_discards_inflight_probes_witness:
  "enc_cache (cache_run reset_cache store_probe (reset_cache enc_initial)
     [CStore 0 None [''x264''], CStore 0 (Some ''x264'') [''fast'']]) = None"
  using reset_discards_inflight_probes [OF refl, of enc_initial "[CStore 0 None [''x264''], CStore 0 (Some ''x264'') [''fast'']]"]
  by (simp add: enc_initial_def)

text \<open>A probe that completes is cached: a later call answers the same list without running
  the subprocess, for the encoder list and for the speed presets of each encoder; what it found
  for one encoder never changes the answer for another; and the only exception that escapes is
  the ValueError of the subprocess call.\<close>

theorem probes_are_cached:
  "(case available_encoders bin run s of
      (Inr names, s') \<Rightarrow> available_encoders bin run' s' = (Inr names, s')
    | (Inl e, s') \<Rightarrow> e = ValueError \<and> s' = s \<and> run [bin, ''--help''] = RunValueError)
   \<and> (case encoder_presets bin run s enc of
      (Inr names, s') \<Rightarrow> encoder_presets bin run' s' enc = (Inr names, s') \<and>
         (enc' = enc \<or> map_of (preset_cache s') enc' = map_of (preset_cache s) enc')
    | (Inl e, s') \<Rightarrow> e = ValueError \<and> s' = s \<and>
         run [bin, ''--encoder-preset-list'', enc] = RunValueError)"
proof -
  have "case available_encoders bin run s of
      (Inr names, s') \<Rightarrow> available_encoders bin run' s' = (Inr names, s')
    | (Inl e, s') \<Rightarrow> e = ValueError \<and> s' = s \<and> run [bin, ''--help''] = RunValueError"
    by (auto simp: available_encoders_def available_store_def probe_encoders_def Let_def
        split: option.splits run_result.splits)
  moreover have "case encoder_presets bin run s enc of
      (Inr names, s') \<Rightarrow> encoder_presets bin run' s' enc = (Inr names, s') \<and>
         (enc' = enc \<or> map_of (preset_cache s') enc' = map_of (preset_cache s) enc')
    | (Inl e, s') \<Rightarrow> e = ValueError \<and> s' = s \<and>
         run [bin, ''--encoder-preset-list'', enc] = RunValueError"
    by (auto simp: encoder_presets_def preset_store_def probe_presets_def Let_def
        split: option.splits run_result.splits)
  ultimately show ?thesis by blast
qed

text \<open>A probe that could not run reports nothing and is cached as such: only a reset retries.\<close>

lemma failed_probe_is_cached:
  "enc_cache s = None \<Longrightarrow> run [bin, ''--help''] = RunOSError \<Longrightarrow>
     available_encoders bin run s = (Inr [], s\<lparr>enc_cache := Some []\<rparr>)"
  by (simp add: available_encoders_def available_store_def probe_encoders_def)

text \<open>The parsers never yield a blank name or a name with white space in it.\<close>

lemma values_of_tokens: "v \<in> set (values_of ls) \<Longrightarrow> v \<noteq> [] \<and> (\<forall>c\<in>set v. \<not> is_space c)"
  using INDENTED_VALUE_token by (fastforce simp: List.map_filter_def)

lemma parse_encoder_list_tokens:
  "v \<in> set (parse_encoder_list out) \<Longrightarrow> v \<noteq> [] \<and> (\<forall>c\<in>set v. \<not> is_space c)"
  unfolding parse_encoder_list_def encoder_lines_start append_Nil by (rule values_of_tokens)

end
