(* ===== verification/Gpu.thy ===== *)
theory Gpu
  imports Encoders
begin

text \<open>
  GPU identification (app/gpu.py): the configured name, then nvidia-smi, then lspci.  The
  subprocess calls are the parameter \<open>run\<close>; every exception they raise is caught.
\<close>

definition PCI_LABELS :: "string list" where
  "PCI_LABELS = [''vga compatible controller:'', ''3d controller:'', ''display controller:'']"

text \<open>The capture after a label: white space is skipped greedily, but one character must be left
  for the group, so a blank rest yields its last character.\<close>

definition pci_group :: "string \<Rightarrow> string option" where
  "pci_group rest =
     (if rest = [] then None
      else (case py_lstrip rest of [] \<Rightarrow> Some [last rest] | g \<Rightarrow> Some g))"

fun pci_label_at :: "string list \<Rightarrow> string \<Rightarrow> string option" where
  "pci_label_at [] s = None"
| "pci_label_at (l # ls) s =
     (if prefix l (map to_lower s) then
        (case pci_group (drop (length l) s) of Some g \<Rightarrow> Some g | None \<Rightarrow> pci_label_at ls s)
      else pci_label_at ls s)"

fun PCI_NAME :: "string \<Rightarrow> string option" where
  "PCI_NAME [] = None"
| "PCI_NAME (c # cs) =
     (case pci_label_at PCI_LABELS (c # cs) of Some g \<Rightarrow> Some g | None \<Rightarrow> PCI_NAME cs)"

definition or_none :: "string \<Rightarrow> string option" where
  "or_none s = (if s = [] then None else Some s)"

text \<open>None: no line matched, the next command is tried; Some r: the function returns r.\<close>

fun first_pci_line :: "string list \<Rightarrow> string option option" where
  "first_pci_line [] = None"
| "first_pci_line (line # lines) =
     (case PCI_NAME line of Some g \<Rightarrow> Some (or_none (py_strip g)) | None \<Rightarrow> first_pci_line lines)"

definition gpu_commands :: "string list list" where
  "gpu_commands =
     [[''nvidia-smi'', ''--query-gpu=name'', ''--format=csv,noheader,nounits''], [''lspci'', ''-nn'']]"

fun try_commands :: "runner \<Rightarrow> string list list \<Rightarrow> string option" where
  "try_commands run [] = None"
| "try_commands run (command # commands) =
     (case run command of
        Ran rc out err \<Rightarrow>
          if rc \<noteq> 0 then try_commands run commands
          else (let output = py_strip out in
            if output = [] then try_commands run commands
            else if hd command = ''nvidia-smi'' then
              (case py_splitlines output of
                 line # _ \<Rightarrow> or_none (py_strip line)
               | [] \<Rightarrow> None)
            else (case first_pci_line (py_splitlines output) of
                 Some r \<Rightarrow> r
               | None \<Rightarrow> try_commands run commands))
      | _ \<Rightarrow> try_commands run commands)"

definition detect_gpu_name :: "(string \<Rightarrow> string option) \<Rightarrow> runner \<Rightarrow> string option" where
  "detect_gpu_name env run =
     (let configured = py_strip (case env ''ENCODER_GPU_NAME'' of Some v \<Rightarrow> v | None \<Rightarrow> []) in
      if configured \<noteq> [] then Some configured else try_commands run gpu_commands)"

section \<open>Lemmas\<close>

lemma py_strip_ends:
  assumes "py_strip s \<noteq> []"
  shows "\<not> is_space (hd (py_strip s))" and "\<not> is_space (last (py_strip s))"
proof -
  let ?l = "py_lstrip s"
  have ne: "?l \<noteq> []" using assms by (auto simp: py_strip_def py_rstrip_def)
  have "prefix (py_strip s) ?l"
    unfolding py_strip_def py_rstrip_def
    by (metis rev_rev_ident suffix_dropWhile suffix_to_prefix)
  then have "hd (py_strip s) = hd ?l" using assms by (auto elim: prefixE)
  then show "\<not> is_space (hd (py_strip s))" using hd_py_lstrip [OF ne] by simp
  show "\<not> is_space (last (py_strip s))"
    using assms hd_dropWhile [of is_space "rev ?l"] by (simp add: py_strip_def py_rstrip_def last_rev)
qed

lemma py_strip_fix:
  assumes "s = [] \<or> \<not> is_space (hd s) \<and> \<not> is_space (last s)"
  shows "py_strip s = s"
proof (cases "s = []")
  case False
  then have "py_lstrip s = s" using assms by (cases s) (auto simp: py_lstrip_def)
  moreover have "dropWhile is_space (rev s) = rev s"
    using False assms by (cases s rule: rev_cases) auto
  ultimately show ?thesis by (simp add: py_strip_def py_rstrip_def)
qed (simp add: py_strip_def py_lstrip_def py_rstrip_def)

lemma py_strip_idem [simp]: "py_strip (py_strip s) = py_strip s"
  by (rule py_strip_fix) (use py_strip_ends in blast)

definition clean_name :: "string option \<Rightarrow> bool" where
  "clean_name r = (case r of None \<Rightarrow> True | Some n \<Rightarrow> n \<noteq> [] \<and> py_strip n = n)"

lemma clean_or_none [simp]: "clean_name (or_none (py_strip s))"
  by (simp add: clean_name_def or_none_def)

lemma clean_first_pci_line: "first_pci_line ls = Some r \<Longrightarrow> clean_name r"
  by (induction ls) (auto split: option.splits)

lemma clean_try_commands: "clean_name (try_commands run cs)"
proof (induction cs)
  case Nil
  then show ?case by (simp add: clean_name_def)
next
  case (Cons c cs)
  have "clean_name None" by (simp add: clean_name_def)
  then show ?case using Cons clean_first_pci_line
    by (auto simp: Let_def split: run_result.splits list.splits option.splits)
qed

lemma splitlines_first_nonspace:
  "s \<noteq> [] \<Longrightarrow> \<not> is_space (hd s) \<Longrightarrow> \<exists>l ls. py_splitlines s = l # ls \<and> l \<noteq> [] \<and> hd l = hd s"
proof -
  have ext: "\<exists>l ls. splitlines_from cur t = l # ls \<and> l \<noteq> [] \<and> hd l = last cur"
    if "cur \<noteq> []" for cur t
    using that
    by (induction cur t rule: splitlines_from.induct) (auto simp: hd_rev)
  assume "s \<noteq> []" "\<not> is_space (hd s)"
  then obtain c cs where s: "s = c # cs" and c: "\<not> is_space c" by (cases s) auto
  have nb: "\<not> is_linebreak c" "c \<noteq> CHR 0x0D" using c linebreak_is_space by auto
  show "\<exists>l ls. py_splitlines s = l # ls \<and> l \<noteq> [] \<and> hd l = hd s"
    using s nb ext [of "[c]"] by (cases cs) (auto simp: py_splitlines_def)
qed

section \<open>Theorems\<close>

text \<open>GPU detection is advisory and clean: a configured name wins without any subprocess;
  a name that is reported is never blank and carries no surrounding white space; when every
  diagnostic raises or exits non-zero the answer is None.\<close>

theorem detect_gpu_name_clean:
  "(case detect_gpu_name env run of None \<Rightarrow> True | Some n \<Rightarrow> n \<noteq> [] \<and> py_strip n = n)
   \<and> (env ''ENCODER_GPU_NAME'' = Some v \<and> py_strip v \<noteq> [] \<longrightarrow> detect_gpu_name env run = Some (py_strip v))
   \<and> (env ''ENCODER_GPU_NAME'' = None \<and>
        (\<forall>c. case run c of Ran rc out err \<Rightarrow> rc \<noteq> 0 | _ \<Rightarrow> True) \<longrightarrow> detect_gpu_name env run = None)"
proof -
  have "clean_name (detect_gpu_name env run)"
    using clean_try_commands by (simp add: detect_gpu_name_def Let_def clean_name_def)
  moreover have "try_commands run cs = None"
    if "\<forall>c. case run c of Ran rc out err \<Rightarrow> rc \<noteq> 0 | _ \<Rightarrow> True" for cs
  proof (induction cs)
    case (Cons c cs)
    then show ?case using that [THEN spec, of c] by (auto split: run_result.splits)
  qed simp
  moreover have "py_strip [] = []" by (simp add: py_strip_def py_lstrip_def py_rstrip_def)
  ultimately show ?thesis by (auto simp: detect_gpu_name_def Let_def clean_name_def)
qed

theorem detect_gpu_name_clean_witness:
  "detect_gpu_name (\<lambda>_. None) (\<lambda>_. RunOSError) = None
   \<and> detect_gpu_name [''ENCODER_GPU_NAME'' \<mapsto> '' Intel Arc A770 ''] (\<lambda>_. RunOSError) = Some ''Intel Arc A770''"
proof -
  have p: "py_strip '' Intel Arc A770 '' = ''Intel Arc A770''" by code_simp
  have "detect_gpu_name (\<lambda>_. None) (\<lambda>_. RunOSError) = None"
    using detect_gpu_name_clean [of "\<lambda>_. None" "\<lambda>_. RunOSError"] by simp
  moreover have "detect_gpu_name [''ENCODER_GPU_NAME'' \<mapsto> '' Intel Arc A770 ''] (\<lambda>_. RunOSError) =
      Some ''Intel Arc A770''"
    using detect_gpu_name_clean [of "[''ENCODER_GPU_NAME'' \<mapsto> '' Intel Arc A770 '']" "\<lambda>_. RunOSError"
        "'' Intel Arc A770 ''"] p by simp
  ultimately show ?thesis by simp
qed

text \<open>nvidia-smi with any visible output always yields a name, its first line.\<close>

lemma nvidia_output_yields_name:
  assumes "run (hd gpu_commands) = Ran 0 out err" and "py_strip out \<noteq> []"
  shows "\<exists>n. try_commands run gpu_commands = Some n"
proof -
  obtain l ls where l: "py_splitlines (py_strip out) = l # ls" "l \<noteq> []" "hd l = hd (py_strip out)"
    using splitlines_first_nonspace [OF assms(2) py_strip_ends(1) [OF assms(2)]] by blast
  then have "\<exists>c\<in>set l. \<not> is_space c" using py_strip_ends(1) [OF assms(2)] by (metis hd_in_set)
  then have "py_strip l \<noteq> []" by (simp add: py_strip_eq_Nil)
  then show ?thesis using assms l by (simp add: gpu_commands_def or_none_def)
qed

lemma lspci_example:
  "PCI_NAME ''01:00.0 VGA compatible controller: NVIDIA AD102 [10de:2684]'' = Some ''NVIDIA AD102 [10de:2684]''"
  by code_simp

end
