(* ===== verification/BodyLimit.thy ===== *)
theory BodyLimit
  imports Prelude
begin

text \<open>
  Request body limiting (app/limits.py), a raw ASGI middleware: the header check that answers
  413 before the application runs, and the counting wrapper around receive that cuts a stream
  off once it passes the limit.  Bytes are characters; an ASGI message keeps the fields the
  middleware reads.
\<close>

section \<open>ASGI data\<close>

datatype asgi_message =
    HttpRequest "string option" bool   \<comment> \<open>body (None: key absent), more body to come\<close>
  | HttpDisconnect
  | OtherMessage string

record scope =
  scope_type :: string
  headers :: "(string \<times> string) list"

datatype sent =
    ResponseStart int "(string \<times> string) list"
  | ResponseBody string

text \<open>str(n) for an int.\<close>

function nat_str :: "nat \<Rightarrow> string" where
  "nat_str n = (if n < 10 then [char_of (48 + n)] else nat_str (n div 10) @ [char_of (48 + n mod 10)])"
  by pat_completeness auto
termination
  by (relation "measure (\<lambda>n. n)") auto

declare nat_str.simps [simp del]

definition int_str :: "int \<Rightarrow> string" where
  "int_str n = (if n < 0 then CHR ''-'' # nat_str (nat (- n)) else nat_str (nat n))"

section \<open>The middleware\<close>

fun content_length_of :: "(string \<times> string) list \<Rightarrow> int option" where
  "content_length_of [] = None"
| "content_length_of ((name, val) # rest) =
     (if name = ''content-length'' then py_int_bytes val else content_length_of rest)"

definition TOO_LARGE :: int where
  "TOO_LARGE = 413"

definition reject :: "int \<Rightarrow> int \<Rightarrow> sent list" where
  \<open>reject sz limit =
     (let body = ''{"code": "request_too_large", "reason": "Request body is '' @ int_str sz @
                 '' bytes; the limit is '' @ int_str limit @ ''."}'' in
      [ResponseStart TOO_LARGE
         [(''content-type'', ''application/json''), (''content-length'', int_str (int (length body)))],
       ResponseBody body])\<close>

definition body_size :: "asgi_message \<Rightarrow> int" where
  "body_size m = (case m of HttpRequest (Some b) _ \<Rightarrow> int (length b) | _ \<Rightarrow> 0)"

text \<open>One call of limited_receive: the counter seen is state of the closure.\<close>

definition limited_receive :: "int \<Rightarrow> int \<Rightarrow> asgi_message \<Rightarrow> asgi_message \<times> int" where
  "limited_receive max_bytes seen message =
     (case message of
        HttpRequest _ _ \<Rightarrow>
          (let seen' = seen + body_size message in
           if seen' > max_bytes then (HttpDisconnect, seen') else (message, seen'))
      | _ \<Rightarrow> (message, seen))"

fun receive_all :: "int \<Rightarrow> int \<Rightarrow> asgi_message list \<Rightarrow> asgi_message list" where
  "receive_all max_bytes seen [] = []"
| "receive_all max_bytes seen (m # ms) =
     (case limited_receive max_bytes seen m of
        (m', seen') \<Rightarrow> m' # receive_all max_bytes seen' ms)"

text \<open>What one request comes to: the messages sent by the middleware itself, and, when the
  application is invoked, what its receive calls return on the given stream.\<close>

datatype outcome = Rejected "sent list" | Invoked "asgi_message list"

definition body_size_limit :: "int \<Rightarrow> scope \<Rightarrow> asgi_message list \<Rightarrow> outcome" where
  "body_size_limit max_bytes sc stream =
     (if scope_type sc \<noteq> ''http'' \<or> max_bytes \<le> 0 then Invoked stream
      else (case content_length_of (headers sc) of
          Some declared \<Rightarrow>
            if declared > max_bytes then Rejected (reject declared max_bytes)
            else Invoked (receive_all max_bytes 0 stream)
        | None \<Rightarrow> Invoked (receive_all max_bytes 0 stream)))"

section \<open>Lemmas\<close>

definition total_size :: "asgi_message list \<Rightarrow> int" where
  "total_size ms = sum_list (map body_size ms)"

lemma body_size_nonneg [simp]: "0 \<le> body_size m"
  by (simp add: body_size_def split: asgi_message.splits option.splits)

lemma total_size_simps [simp]:
  "total_size [] = 0" "total_size (m # ms) = body_size m + total_size ms"
  by (simp_all add: total_size_def)

lemma total_size_nonneg [simp]: "0 \<le> total_size ms"
  by (induction ms) auto

lemma limited_receive_cases:
  obtains (kept) "limited_receive mx seen m = (m, seen + body_size m)"
      "seen + body_size m \<le> mx \<or> body_size m = 0"
  | (cut) "limited_receive mx seen m = (HttpDisconnect, seen + body_size m)" "seen + body_size m > mx"
proof (cases m)
  case (HttpRequest b final)
  then show ?thesis using that by (cases "seen + body_size m > mx") (auto simp: limited_receive_def Let_def)
qed (use that in \<open>auto simp: limited_receive_def body_size_def\<close>)

lemma receive_all_bound:
  "total_size (receive_all mx seen ms) \<le> max 0 (mx - seen)"
proof (induction ms arbitrary: seen)
  case (Cons m ms)
  show ?case
  proof (cases rule: limited_receive_cases [of mx seen m])
    case kept
    then show ?thesis using Cons.IH [of "seen + body_size m"] by auto
  next
    case cut
    then show ?thesis using Cons.IH [of "seen + body_size m"] by (auto simp: body_size_def)
  qed
qed simp

lemma receive_all_transparent:
  "seen + total_size ms \<le> mx \<Longrightarrow> receive_all mx seen ms = ms"
proof (induction ms arbitrary: seen)
  case (Cons m ms)
  show ?case
  proof (cases rule: limited_receive_cases [of mx seen m])
    case kept
    then show ?thesis using Cons by auto
  next
    case cut
    then show ?thesis using Cons.prems total_size_nonneg [of ms] by simp
  qed
qed simp

lemma receive_all_severed:
  "seen > mx \<Longrightarrow> HttpRequest b final \<notin> set (receive_all mx seen ms)"
proof (induction ms arbitrary: seen)
  case (Cons m ms)
  have "seen + body_size m > mx" using Cons.prems body_size_nonneg [of m] by linarith
  then show ?case using Cons
    by (cases m) (auto simp: limited_receive_def Let_def body_size_def split: option.splits)
qed simp

section \<open>Theorems\<close>

text \<open>C36. Memory stays bounded: whatever Content-Length claims and however the body is chunked,
  an HTTP request never hands the application final than the configured number of body bytes,
  and a declared size above the limit is answered with 413 without invoking the application.\<close>

theorem body_size_limit_bounds:
  assumes "scope_type sc = ''http''" and "0 < max_bytes"
  shows "case body_size_limit max_bytes sc stream of
      Invoked ms \<Rightarrow> total_size ms \<le> max_bytes \<and>
        (case content_length_of (headers sc) of Some d \<Rightarrow> d \<le> max_bytes | None \<Rightarrow> True)
    | Rejected out \<Rightarrow> (\<exists>d. content_length_of (headers sc) = Some d \<and> max_bytes < d \<and>
        out = reject d max_bytes)"
proof -
  have "total_size (receive_all max_bytes 0 stream) \<le> max_bytes"
    using receive_all_bound [of max_bytes 0 stream] assms(2) by simp
  then show ?thesis using assms by (auto simp: body_size_limit_def split: option.splits)
qed

definition chunked_scope :: scope where
  "chunked_scope = \<lparr>scope_type = ''http'', headers = [(''transfer-encoding'', ''chunked'')]\<rparr>"

theorem body_size_limit_bounds_witness:
  "\<exists>ms. body_size_limit 4 chunked_scope
      [HttpRequest (Some ''abc'') True, HttpRequest (Some ''de'') False] = Invoked ms \<and> total_size ms \<le> 4"
proof -
  have "body_size_limit 4 chunked_scope
      [HttpRequest (Some ''abc'') True, HttpRequest (Some ''de'') False] =
      Invoked [HttpRequest (Some ''abc'') True, HttpDisconnect]" by code_simp
  then show ?thesis
    using body_size_limit_bounds [of chunked_scope 4
        "[HttpRequest (Some ''abc'') True, HttpRequest (Some ''de'') False]"]
    by (simp add: chunked_scope_def)
qed

text \<open>A request within the limit passes unchanged, message for message; once the count
  passes the limit every later body message is replaced by a disconnect.\<close>

theorem receive_transparent_then_severed:
  "(total_size ms \<le> max_bytes \<longrightarrow> receive_all max_bytes 0 ms = ms)
   \<and> (total_size ms \<le> max_bytes \<and> total_size (ms @ [HttpRequest (Some b) final]) > max_bytes \<longrightarrow>
        (\<exists>rest'. receive_all max_bytes 0 (ms @ HttpRequest (Some b) final # rest) =
            ms @ HttpDisconnect # rest' \<and> HttpRequest b' again \<notin> set rest'))"
proof -
  have split: "receive_all mx seen (xs @ ys) = xs @ receive_all mx (seen + total_size xs) ys"
    if "seen + total_size xs \<le> mx" for mx seen xs ys
    using that
  proof (induction xs arbitrary: seen)
    case (Cons m xs)
    then show ?case using total_size_nonneg [of xs]
      by (cases rule: limited_receive_cases [of mx seen m]) (auto simp: add.assoc)
  qed simp
  let ?m = "HttpRequest (Some b) final"
  have "receive_all max_bytes 0 (ms @ ?m # rest) =
      ms @ HttpDisconnect # receive_all max_bytes (total_size ms + body_size ?m) rest"
    if "total_size ms \<le> max_bytes" "total_size ms + body_size ?m > max_bytes"
    using that split [of 0 ms max_bytes "?m # rest"]
    by (simp add: limited_receive_def Let_def)
  moreover have "total_size (ms @ [?m]) = total_size ms + body_size ?m" by (simp add: total_size_def)
  ultimately show ?thesis using receive_all_transparent [of 0 ms max_bytes] receive_all_severed by auto
qed

theorem receive_transparent_then_severed_witness:
  "receive_all 5 0 [HttpRequest (Some ''abc'') True] = [HttpRequest (Some ''abc'') True]"
  using receive_transparent_then_severed [of "[HttpRequest (Some ''abc'') True]" 5 "''xyz''" True
      "[]" "None" False]
  by (simp add: total_size_def body_size_def)

lemma content_length_first_wins:
  "content_length_of ((''content-length'', v) # hs) = py_int_bytes v"
  by simp

end
