(* ===== verification/Progress.thy ===== *)
theory Progress
  imports Errors
begin

text \<open>
  Progress parsing (app/handbrake_runner.py): the brace scanner that finds JSON objects in
  HandBrake's output, the remaining-time estimate, and what one object reports.  json.loads is
  the parameter \<open>loads\<close>: it returns a value, raises JSONDecodeError (caught by the scanner), or
  raises something else (a too long integer literal, too deep nesting), which the scanner lets
  through.
\<close>

datatype loads_result = Loaded json | DecodeError | LoadsRaised exc

type_synonym decoder = "string \<Rightarrow> loads_result"

section \<open>The scanner\<close>

record scan =
  depth :: nat
  start :: int
  in_string :: bool
  escaped :: bool
  objects :: "dict list"

definition scan_init :: scan where
  "scan_init = \<lparr>depth = 0, start = -1, in_string = False, escaped = False, objects = []\<rparr>"

definition close_object :: "decoder \<Rightarrow> string \<Rightarrow> nat \<Rightarrow> scan \<Rightarrow> scan result" where
  "close_object loads chunk index st =
     (case loads (take (Suc index - nat (start st)) (drop (nat (start st)) chunk)) of
        DecodeError \<Rightarrow> Inr (st\<lparr>start := -1\<rparr>)
      | Loaded (JDict parsed) \<Rightarrow> Inr (st\<lparr>objects := objects st @ [parsed], start := -1\<rparr>)
      | Loaded _ \<Rightarrow> Inr (st\<lparr>start := -1\<rparr>)
      | LoadsRaised e \<Rightarrow> Inl e)"

definition scan_char :: "decoder \<Rightarrow> string \<Rightarrow> nat \<Rightarrow> char \<Rightarrow> scan \<Rightarrow> scan result" where
  "scan_char loads chunk index c st =
     (if in_string st then
        (if escaped st then Inr (st\<lparr>escaped := False\<rparr>)
         else if c = CHR 0x5C then Inr (st\<lparr>escaped := True\<rparr>)
         else if c = CHR 0x22 then Inr (st\<lparr>in_string := False\<rparr>)
         else Inr st)
      else if c = CHR 0x22 then Inr (st\<lparr>in_string := True\<rparr>)
      else if c = CHR ''{'' then
        Inr (st\<lparr>start := (if depth st = 0 then int index else start st), depth := Suc (depth st)\<rparr>)
      else if c = CHR ''}'' then
        (if depth st = 0 then Inr st
         else (let st' = st\<lparr>depth := depth st - 1\<rparr> in
           if depth st' = 0 \<and> 0 \<le> start st' then close_object loads chunk index st'
           else Inr st'))
      else Inr st)"

fun scan_from :: "decoder \<Rightarrow> string \<Rightarrow> nat \<Rightarrow> string \<Rightarrow> scan \<Rightarrow> scan result" where
  "scan_from loads chunk index [] st = Inr st"
| "scan_from loads chunk index (c # cs) st =
     bind_res (scan_char loads chunk index c st) (scan_from loads chunk (Suc index) cs)"

definition parse_progress_objects :: "decoder \<Rightarrow> string \<Rightarrow> dict list result" where
  "parse_progress_objects loads chunk =
     bind_res (scan_from loads chunk 0 chunk scan_init) (\<lambda>st. Inr (objects st))"

section \<open>Remaining time and reports\<close>

definition number_eq :: "json \<Rightarrow> rat \<Rightarrow> bool" where
  "number_eq v q = (case as_number v of Some x \<Rightarrow> feq x (Fin q) | None \<Rightarrow> False)"

definition pass_pending :: "dict \<Rightarrow> bool" where
  "pass_pending working =
     (case (as_number (dget working ''Pass''), as_number (dget working ''PassCount'')) of
        (Some a, Some b) \<Rightarrow> flt a b
      | _ \<Rightarrow> False)"

text \<open>math.isfinite converts an int to a float first and raises OverflowError for a huge one.\<close>

definition remaining_seconds :: "dict \<Rightarrow> int option result" where
  "remaining_seconds obj =
     (case (dget obj ''State'' = JStr ''WORKING'', dget obj ''Working'') of
        (True, JDict working) \<Rightarrow>
          (let settle = (\<lambda>n. if number_eq (dget working ''Hours'') (-1) \<or> pass_pending working
                             then Inr None else Inr (Some n)) in
           case dget working ''ETASeconds'' of
             JInt n \<Rightarrow>
               (if float_of_int n = None then Inl (OtherException ''OverflowError'')
                else if n < 0 then Inr None else settle n)
           | JFloat (Fin x) \<Rightarrow> if x < 0 then Inr None else settle (py_trunc x)
           | _ \<Rightarrow> Inr None)
      | _ \<Rightarrow> Inr None)"

text \<open>The calls run_encode makes into its caller.\<close>

datatype callback = OnEta "int option" | OnProgress pyfloat

text \<open>float(fraction) * 100.0 capped at 100.0; None when the conversion raises OverflowError.\<close>

definition percent :: "json \<Rightarrow> pyfloat option" where
  "percent fraction =
     map_option (\<lambda>x. fmin (fmul x (Fin 100)) (Fin 100))
       (case fraction of
          JInt n \<Rightarrow> float_of_int n
        | _ \<Rightarrow> as_number fraction)"

text \<open>What one parsed object reports.  An exception of the estimate, of the conversion or of a
  callback is caught and logged, so it only suppresses the report.\<close>

definition eta_report :: "bool \<Rightarrow> dict \<Rightarrow> callback list" where
  "eta_report with_eta obj =
     (if with_eta \<and> map_of obj ''State'' \<noteq> None
      then (case remaining_seconds obj of Inr r \<Rightarrow> [OnEta r] | Inl _ \<Rightarrow> [])
      else [])"

definition progress_report :: "dict \<Rightarrow> callback list" where
  "progress_report obj =
     (case dget obj ''Working'' of
        JDict working \<Rightarrow>
          (case as_number (dget working ''Progress'') of
             None \<Rightarrow> []
           | Some _ \<Rightarrow> (case percent (dget working ''Progress'') of
               Some p \<Rightarrow> [OnProgress p]
             | None \<Rightarrow> []))
      | _ \<Rightarrow> [])"

definition report :: "bool \<Rightarrow> dict \<Rightarrow> callback list" where
  "report with_eta obj = eta_report with_eta obj @ progress_report obj"

section \<open>The scanner as a lexer\<close>

text \<open>The lexer keeps the text of the open object (reversed) instead of its start index, and
  emits the text of each object when its last brace closes.\<close>

datatype lexer = Lexer (lx_depth: nat) (lx_string: bool) (lx_escaped: bool) (lx_text: string)

definition lex_init :: lexer where
  "lex_init = Lexer 0 False False []"

fun lex_char :: "lexer \<Rightarrow> char \<Rightarrow> lexer \<times> string option" where
  "lex_char (Lexer d s e t) c =
     (let t' = (if d = 0 then [] else c # t) in
      if s then
        (if e then (Lexer d True False t', None)
         else if c = CHR 0x5C then (Lexer d True True t', None)
         else if c = CHR 0x22 then (Lexer d False e t', None)
         else (Lexer d True e t', None))
      else if c = CHR 0x22 then (Lexer d True e t', None)
      else if c = CHR ''{'' then (Lexer (Suc d) False e (c # t), None)
      else if c = CHR ''}'' then
        (if d = 0 then (Lexer 0 False e t, None)
         else if d = 1 then (Lexer 0 False e [], Some (rev t'))
         else (Lexer (d - 1) False e t', None))
      else (Lexer d False e t', None))"

fun lex_all :: "lexer \<Rightarrow> string \<Rightarrow> string list \<times> lexer" where
  "lex_all lx [] = ([], lx)"
| "lex_all lx (c # cs) =
     (case lex_char lx c of (lx', out) \<Rightarrow>
        (case lex_all lx' cs of (outs, lx'') \<Rightarrow>
           ((case out of Some t \<Rightarrow> t # outs | None \<Rightarrow> outs), lx'')))"

definition object_texts :: "string \<Rightarrow> string list" where
  "object_texts chunk = fst (lex_all lex_init chunk)"

fun decode_all :: "decoder \<Rightarrow> string list \<Rightarrow> dict list result" where
  "decode_all loads [] = Inr []"
| "decode_all loads (t # ts) =
     (case loads t of
        LoadsRaised e \<Rightarrow> Inl e
      | Loaded (JDict d) \<Rightarrow> bind_res (decode_all loads ts) (\<lambda>ds. Inr (d # ds))
      | _ \<Rightarrow> decode_all loads ts)"

definition lex_ok :: "lexer \<Rightarrow> bool" where
  "lex_ok lx \<longleftrightarrow> (lx_depth lx = 0 \<longrightarrow> lx_text lx = [])"

definition scan_matches :: "string \<Rightarrow> nat \<Rightarrow> scan \<Rightarrow> lexer \<Rightarrow> bool" where
  "scan_matches chunk index st lx \<longleftrightarrow>
     depth st = lx_depth lx \<and> in_string st = lx_string lx \<and> escaped st = lx_escaped lx \<and> lex_ok lx \<and>
     (0 < lx_depth lx \<longrightarrow> 0 \<le> start st \<and> nat (start st) \<le> index \<and>
        lx_text lx = rev (drop (nat (start st)) (take index chunk)))"

lemma take_drop_snoc:
  assumes "chunk = pre @ c # cs" and "k \<le> length pre"
  shows "drop k (take (Suc (length pre)) chunk) = drop k (take (length pre) chunk) @ [c]"
  using assms by (simp add: take_append)

lemma scan_char_step:
  assumes ch: "chunk = pre @ c # cs" and m: "scan_matches chunk (length pre) st lx"
  shows "case snd (lex_char lx c) of
      None \<Rightarrow> \<exists>st'. scan_char loads chunk (length pre) c st = Inr st' \<and> objects st' = objects st \<and>
        scan_matches chunk (Suc (length pre)) st' (fst (lex_char lx c))
    | Some t \<Rightarrow> \<exists>st'. scan_matches chunk (Suc (length pre)) st' (fst (lex_char lx c)) \<and>
        objects st' = objects st \<and>
        scan_char loads chunk (length pre) c st =
          (case loads t of
             LoadsRaised e \<Rightarrow> Inl e
           | Loaded (JDict d) \<Rightarrow> Inr (st'\<lparr>objects := objects st @ [d]\<rparr>)
           | _ \<Rightarrow> Inr st')"
proof -
  obtain d s e t where l: "lx = Lexer d s e t" by (cases lx)
  have st: "depth st = d" "in_string st = s" "escaped st = e" "d = 0 \<Longrightarrow> t = []"
    "0 < d \<Longrightarrow> 0 \<le> start st" "0 < d \<Longrightarrow> nat (start st) \<le> length pre"
    using m l by (auto simp: scan_matches_def lex_ok_def)
  have cur: "0 < d \<Longrightarrow> rev (drop (nat (start st)) (take (Suc (length pre)) chunk)) = c # t"
    using m l take_drop_snoc [OF ch, of "nat (start st)"] by (auto simp: scan_matches_def)
  have fresh: "drop (length pre) (take (Suc (length pre)) chunk) = [c]" using ch by simp
  have sl: "take (Suc (length pre) - nat (start st)) (drop (nat (start st)) chunk) = rev t @ [c]" if "0 < d"
    using cur [OF that] by (metis drop_take rev.simps(2) rev_rev_ident)
  note defs = scan_matches_def lex_ok_def scan_char_def Let_def
  show ?thesis
  proof (cases s)
    case True
    then show ?thesis using st cur by (cases "d = 0") (simp_all add: l defs)
  next
    case False
    consider (quote) "c = CHR 0x22" | (lbrace) "c = CHR ''{''" | (rbrace) "c = CHR ''}''"
      | (other) "c \<noteq> CHR 0x22" "c \<noteq> CHR ''{''" "c \<noteq> CHR ''}''" by blast
    then show ?thesis
    proof cases
      case quote
      then show ?thesis using False st cur by (cases "d = 0") (simp_all add: l defs)
    next
      case lbrace
      then show ?thesis using False st cur fresh by (cases "d = 0") (simp_all add: l defs)
    next
      case other
      then show ?thesis using False st cur by (cases "d = 0") (simp_all add: l defs)
    next
      case rbrace
      consider "d = 0" | (last_one) "d = 1" | "1 < d" by linarith
      then show ?thesis
      proof cases
        case last_one
        let ?st = "st\<lparr>depth := 0, start := -1\<rparr>"
        have "scan_char loads chunk (length pre) c st =
            (case loads (rev t @ [c]) of
               LoadsRaised e \<Rightarrow> Inl e
             | Loaded (JDict d) \<Rightarrow> Inr (?st\<lparr>objects := objects st @ [d]\<rparr>)
             | _ \<Rightarrow> Inr ?st)"
          using False st sl rbrace last_one
          by (simp add: defs close_object_def split: loads_result.split json.split)
        moreover have "scan_matches chunk (Suc (length pre)) ?st (fst (lex_char lx c))"
          using False st rbrace last_one by (simp add: l defs)
        ultimately show ?thesis using False rbrace last_one
          by (simp add: l Let_def) (rule exI [of _ ?st], simp)
      qed (use False st cur rbrace in \<open>simp_all add: l defs\<close>)
    qed
  qed
qed

lemma scan_from_lex:
  assumes "chunk = pre @ cs" and "scan_matches chunk (length pre) st lx"
  shows "bind_res (scan_from loads chunk (length pre) cs st) (\<lambda>st. Inr (objects st)) =
         bind_res (decode_all loads (fst (lex_all lx cs))) (\<lambda>ds. Inr (objects st @ ds))"
  using assms
proof (induction cs arbitrary: pre st lx)
  case (Cons c cs)
  obtain lx' out where lx: "lex_char lx c = (lx', out)" by force
  obtain outs lx'' where rest: "lex_all lx' cs = (outs, lx'')" by force
  have ch: "chunk = (pre @ [c]) @ cs" using Cons.prems(1) by simp
  note stp = scan_char_step [OF Cons.prems, of loads, unfolded lx fst_conv snd_conv]
  have IH: "bind_res (scan_from loads chunk (Suc (length pre)) cs st') (\<lambda>st. Inr (objects st)) =
      bind_res (decode_all loads outs) (\<lambda>ds. Inr (objects st' @ ds))"
    if "scan_matches chunk (Suc (length pre)) st' lx'" for st'
    using Cons.IH [OF ch, of st' lx'] that rest by simp
  show ?case
  proof (cases out)
    case None
    then obtain st' where st': "scan_char loads chunk (length pre) c st = Inr st'"
      "objects st' = objects st" "scan_matches chunk (Suc (length pre)) st' lx'"
      using stp by auto
    show ?thesis using IH [OF st'(3)] st' None by (simp add: lx rest)
  next
    case (Some t)
    then obtain st' where m: "scan_matches chunk (Suc (length pre)) st' lx'" "objects st' = objects st"
      and sc: "scan_char loads chunk (length pre) c st =
          (case loads t of
             LoadsRaised e \<Rightarrow> Inl e
           | Loaded (JDict d) \<Rightarrow> Inr (st'\<lparr>objects := objects st @ [d]\<rparr>)
           | _ \<Rightarrow> Inr st')"
      using stp by auto
    have m': "scan_matches chunk (Suc (length pre)) (st'\<lparr>objects := ds\<rparr>) lx'" for ds
      using m(1) by (simp add: scan_matches_def)
    note I = IH [OF m(1)] IH [OF m']
    have b: "bind_res (bind_res r f) g = bind_res r (\<lambda>x. bind_res (f x) g)" for r f g
      by (cases r) simp_all
    show ?thesis
    proof (cases "loads t")
      case (Loaded v)
      then show ?thesis using I m(2) by (cases v) (simp_all add: lx rest Some sc b)
    qed (use I m(2) in \<open>simp_all add: lx rest Some sc b\<close>)
  qed
qed simp

lemma parse_progress_objects_eq:
  "parse_progress_objects loads chunk = decode_all loads (object_texts chunk)"
proof -
  have "scan_matches chunk 0 scan_init lex_init"
    by (simp add: scan_matches_def lex_ok_def scan_init_def lex_init_def)
  then have "parse_progress_objects loads chunk =
      bind_res (decode_all loads (object_texts chunk)) (\<lambda>ds. Inr (objects scan_init @ ds))"
    using scan_from_lex [of chunk "[]" chunk scan_init lex_init loads]
    by (simp add: parse_progress_objects_def object_texts_def)
  then show ?thesis by (cases "decode_all loads (object_texts chunk)") (auto simp: scan_init_def)
qed

subsection \<open>Composition of lexer runs\<close>

lemma lex_all_append:
  "lex_all lx (a @ b) =
     (case lex_all lx a of (o1, lx1) \<Rightarrow> case lex_all lx1 b of (o2, lx2) \<Rightarrow> (o1 @ o2, lx2))"
  by (induction a arbitrary: lx) (auto split: prod.splits option.splits)

lemma decode_all_append:
  "decode_all loads (xs @ ys) =
     bind_res (decode_all loads xs) (\<lambda>ds. bind_res (decode_all loads ys) (\<lambda>es. Inr (ds @ es)))"
proof (induction xs)
  case Nil
  show ?case by (cases "decode_all loads ys") auto
next
  case (Cons x xs)
  then show ?case
    by (cases "decode_all loads xs"; cases "decode_all loads ys")
      (auto split: loads_result.splits json.splits)
qed

lemma lex_all_no_brace:
  "CHR ''}'' \<notin> set cs \<Longrightarrow> fst (lex_all lx cs) = []"
proof (induction cs arbitrary: lx)
  case (Cons c cs)
  obtain d s e t where "lx = Lexer d s e t" by (cases lx)
  then have "snd (lex_char lx c) = None" using Cons.prems by (auto simp: Let_def)
  then show ?case using Cons by (cases "lex_char lx c") (auto split: prod.splits)
qed simp

section \<open>Object texts\<close>

text \<open>The texts the scanner is built for: an object is an opening brace, then plain characters,
  string literals (in which braces and escaped quotes may stand) and nested objects, then a
  closing brace.\<close>

inductive str_rest :: "string \<Rightarrow> bool" where
  str_end: "str_rest [CHR 0x22]"
| str_char: "c \<noteq> CHR 0x22 \<Longrightarrow> c \<noteq> CHR 0x5C \<Longrightarrow> str_rest s \<Longrightarrow> str_rest (c # s)"
| str_escape: "str_rest s \<Longrightarrow> str_rest (CHR 0x5C # c # s)"

definition plain_char :: "char \<Rightarrow> bool" where
  "plain_char c \<longleftrightarrow> c \<noteq> CHR 0x22 \<and> c \<noteq> CHR ''{'' \<and> c \<noteq> CHR ''}''"

inductive obj_body :: "string \<Rightarrow> bool" where
  body_nil: "obj_body []"
| body_char: "plain_char c \<Longrightarrow> obj_body b \<Longrightarrow> obj_body (c # b)"
| body_string: "str_rest s \<Longrightarrow> obj_body b \<Longrightarrow> obj_body (CHR 0x22 # s @ b)"
| body_object: "obj_body a \<Longrightarrow> obj_body b \<Longrightarrow> obj_body (CHR ''{'' # a @ CHR ''}'' # b)"

definition obj_text :: "string \<Rightarrow> bool" where
  "obj_text t \<longleftrightarrow> (\<exists>b. obj_body b \<and> t = CHR ''{'' # b @ [CHR ''}''])"

lemma lex_str_rest:
  "str_rest s \<Longrightarrow> lex_all (Lexer (Suc d) True False t) s = ([], Lexer (Suc d) False False (rev s @ t))"
  by (induction arbitrary: t rule: str_rest.induct) (auto simp: Let_def)

lemma lex_obj_body:
  "obj_body b \<Longrightarrow> lex_all (Lexer (Suc d) False False t) b = ([], Lexer (Suc d) False False (rev b @ t))"
proof (induction arbitrary: d t rule: obj_body.induct)
  case (body_string s b)
  then show ?case by (simp add: Let_def lex_all_append lex_str_rest)
qed (auto simp: Let_def lex_all_append plain_char_def)

lemma lex_obj_text:
  "obj_text x \<Longrightarrow> lex_all lex_init x = ([x], lex_init)"
  by (auto simp: obj_text_def lex_init_def Let_def lex_all_append lex_obj_body)

lemma lex_noise:
  "\<forall>c\<in>set noise. plain_char c \<or> c = CHR ''}'' \<Longrightarrow> lex_all lex_init noise = ([], lex_init)"
  by (induction noise) (auto simp: lex_init_def Let_def plain_char_def)

subsection \<open>The objects found in a chunk\<close>

text \<open>What json.loads makes of one object text, when it does not raise past JSONDecodeError.\<close>

definition decoded :: "decoder \<Rightarrow> string \<Rightarrow> dict list" where
  "decoded loads t = (case loads t of Loaded (JDict d) \<Rightarrow> [d] | _ \<Rightarrow> [])"

lemma decode_all_decoded:
  "\<forall>t\<in>set ts. \<forall>e. loads t \<noteq> LoadsRaised e \<Longrightarrow> decode_all loads ts = Inr (concat (map (decoded loads) ts))"
  by (induction ts) (auto simp: decoded_def split: loads_result.splits json.splits)

lemma lex_noise_objects:
  "\<forall>(noise, obj)\<in>set ps. (\<forall>c\<in>set noise. plain_char c \<or> c = CHR ''}'') \<and> obj_text obj \<Longrightarrow>
     lex_all lex_init (concat (map (\<lambda>(noise, obj). noise @ obj) ps)) = (map snd ps, lex_init)"
  by (induction ps) (auto simp: lex_all_append lex_noise lex_obj_text)

text \<open>C23. The scanner finds exactly the objects: in a stream of object texts (with braces in
  strings, escaped quotes and nested objects), each after noise without quotes or opening
  braces, and followed by any unfinished text without a closing brace, parse_progress_objects
  returns the decodable objects in order, dropping the malformed ones and raising nothing as
  long as json.loads raises only JSONDecodeError on those texts.\<close>

theorem parse_progress_objects_extracts:
  assumes "\<forall>(noise, obj)\<in>set ps. (\<forall>c\<in>set noise. plain_char c \<or> c = CHR ''}'') \<and> obj_text obj"
    and "CHR ''}'' \<notin> set rest"
    and "\<forall>t\<in>set (map snd ps). \<forall>e. loads t \<noteq> LoadsRaised e"
  shows "parse_progress_objects loads (concat (map (\<lambda>(noise, obj). noise @ obj) ps) @ rest) =
    Inr (concat (map (decoded loads) (map snd ps)))"
proof -
  have "object_texts (concat (map (\<lambda>(noise, obj). noise @ obj) ps) @ rest) = map snd ps"
    using lex_noise_objects [OF assms(1)] lex_all_no_brace [OF assms(2), of lex_init]
    by (cases "lex_all lex_init rest") (simp add: object_texts_def lex_all_append)
  then show ?thesis using decode_all_decoded [OF assms(3)]
    by (simp add: parse_progress_objects_eq)
qed

text \<open>A concrete stream: noise, the object {"A": "}\""}, noise, the object {{}}, and an
  unfinished one; the decoder rejects the second object.\<close>

definition demo_object :: string where
  "demo_object = [CHR ''{'', CHR 0x22, CHR ''A'', CHR 0x22, CHR '':'', CHR 0x22, CHR ''}'', CHR 0x5C,
     CHR 0x22, CHR 0x22, CHR ''}'']"

definition demo_loads :: decoder where
  "demo_loads t = (if t = demo_object then Loaded (JDict [(''A'', JInt 1)]) else DecodeError)"

lemma obj_text_demo: "obj_text demo_object" "obj_text ''{{}}''"
proof -
  have "obj_body (CHR 0x22 # [CHR ''A'', CHR 0x22] @ CHR '':'' #
      CHR 0x22 # [CHR ''}'', CHR 0x5C, CHR 0x22, CHR 0x22] @ [])"
    by (intro obj_body.intros str_rest.intros) (simp_all add: plain_char_def)
  then show "obj_text demo_object" by (auto simp: obj_text_def demo_object_def)
  have "obj_body (CHR ''{'' # [] @ CHR ''}'' # [])" by (intro obj_body.intros)
  then show "obj_text ''{{}}''" by (auto simp: obj_text_def)
qed

theorem parse_progress_objects_extracts_witness:
  "parse_progress_objects demo_loads
     (concat (map (\<lambda>(noise, obj). noise @ obj) [(''Log: } '', demo_object), ('' x'', ''{{}}'')]) @ ''{{[ '') =
   Inr [[(''A'', JInt 1)]]"
  using parse_progress_objects_extracts
    [of "[(''Log: } '', demo_object), ('' x'', ''{{}}'')]" "''{{[ ''" demo_loads] obj_text_demo
  by (simp add: plain_char_def decoded_def demo_loads_def demo_object_def)

subsection \<open>Estimates and percentages\<close>

lemma settled_estimate:
  "(if number_eq h q \<or> p then Inr None else Inr (Some m)) = (Inr (Some n) :: int option result) \<longleftrightarrow>
     m = n \<and> \<not> number_eq h q \<and> \<not> p"
  by auto

text \<open>An estimate is reported exactly for a WORKING state with a finite, non-negative
  ETASeconds, whose Hours is not the warm-up value -1, in the last pass; it is then the whole
  number of seconds, never negative.\<close>

theorem remaining_seconds_exact:
  "remaining_seconds obj = Inr (Some n) \<longleftrightarrow>
     dget obj ''State'' = JStr ''WORKING'' \<and>
     (\<exists>working. dget obj ''Working'' = JDict working \<and>
        ((dget working ''ETASeconds'' = JInt n \<and> 0 \<le> n \<and> float_of_int n \<noteq> None) \<or>
         (\<exists>x. dget working ''ETASeconds'' = JFloat (Fin x) \<and> 0 \<le> x \<and> n = \<lfloor>x\<rfloor>)) \<and>
        \<not> number_eq (dget working ''Hours'') (-1) \<and> \<not> pass_pending working)"
proof (cases "dget obj ''State'' = JStr ''WORKING''")
  case True
  show ?thesis
  proof (cases "dget obj ''Working''")
    case (JDict w)
    show ?thesis
    proof (cases "dget w ''ETASeconds''")
      case (JInt m)
      then show ?thesis using True JDict
        by (auto simp: remaining_seconds_def Let_def settled_estimate)
    next
      case (JFloat x)
      then show ?thesis using True JDict
        by (cases x) (auto simp: remaining_seconds_def Let_def settled_estimate py_trunc_def)
    qed (use True JDict in \<open>simp_all add: remaining_seconds_def Let_def\<close>)
  qed (use True in \<open>simp_all add: remaining_seconds_def\<close>)
qed (simp add: remaining_seconds_def)

lemma percent_number:
  assumes "as_number v = Some x"
  shows "(percent v = None \<and> (\<exists>n. v = JInt n \<and> float_of_int n = None)) \<or>
    (\<exists>y. percent v = Some (fmin (fmul y (Fin 100)) (Fin 100)) \<and>
       (y = x \<or> (\<exists>n. v = JInt n \<and> x = Fin (of_int n) \<and> round64 (of_int n) = y \<and> is_finite y)))"
proof (cases v)
  case (JInt n)
  then show ?thesis using assms
    by (cases "round64 (of_int n)") (auto simp: percent_def float_of_int_def simp del: fmul.simps)
qed (use assms in \<open>auto simp: percent_def simp del: fmul.simps\<close>)

lemma fmin_100:
  "fmin y (Fin 100) = NaN \<longleftrightarrow> y = NaN"
  "fmin y (Fin 100) \<noteq> Inf False"
  "fmin y (Fin 100) = Fin r \<Longrightarrow> r \<le> 100"
  by (cases y; auto simp: fmin_def split: if_splits)+

lemma fmin_100_nonneg:
  assumes "x = Inf False \<or> (\<exists>q. x = Fin q \<and> 0 \<le> q)"
  shows "\<exists>r. fmin (fmul x (Fin 100)) (Fin 100) = Fin r \<and> 0 \<le> r"
proof (cases x)
  case (Fin q)
  with assms have q: "0 \<le> q * 100" by simp
  show ?thesis
  proof (cases "round64 (q * 100)")
    case NaN
    then show ?thesis by simp
  next
    case (Inf s)
    then show ?thesis using round64_Inf_sign [OF Inf] q Fin by (simp add: fmin_def)
  next
    case r: (Fin r)
    then show ?thesis using round64_nonneg [OF q r] Fin by (simp add: fmin_def)
  qed
qed (use assms in \<open>auto simp: fmin_def\<close>)

text \<open>What one object reports is capped: a percentage above 100 and a negative estimate do not occur.\<close>

fun capped :: "callback \<Rightarrow> bool" where
  "capped (OnProgress p) \<longleftrightarrow> p \<noteq> Inf False \<and> (\<forall>r. p = Fin r \<longrightarrow> r \<le> 100)"
| "capped (OnEta seconds) \<longleftrightarrow> (\<forall>n. seconds = Some n \<longrightarrow> 0 \<le> n)"

lemma percent_capped: "percent v = Some p \<Longrightarrow> capped (OnProgress p)"
  using fmin_100(2,3) by (auto simp: percent_def simp del: fmul.simps)
lemma remaining_seconds_nonneg: "remaining_seconds obj = Inr (Some n) \<Longrightarrow> 0 \<le> n"
  unfolding remaining_seconds_exact by auto
lemma progress_report_capped: "c \<in> set (progress_report obj) \<Longrightarrow> capped c"
proof -
  assume "c \<in> set (progress_report obj)"
  then obtain v p where "percent v = Some p" "c = OnProgress p"
    by (auto simp: progress_report_def split: json.splits option.splits) metis
  then show ?thesis by (simp only: percent_capped)
qed

lemma eta_report_capped: "c \<in> set (eta_report we obj) \<Longrightarrow> capped c"
  by (cases "remaining_seconds obj"; cases "map_of obj ''State''"; cases we)
    (auto simp add: eta_report_def dest: remaining_seconds_nonneg)

lemma report_capped: "c \<in> set (report we obj) \<Longrightarrow> capped c"
  using eta_report_capped progress_report_capped by (auto simp: report_def)
text \<open>C40. Every progress value handed to on_progress is at most 100 or NaN (never above),
  and it lies between 0 and 100 whenever HandBrake's fraction is not negative and not NaN,
  however large.  At most one value is reported per object.\<close>

theorem progress_report_bounds:
  assumes "dget obj ''Working'' = JDict working" and "as_number (dget working ''Progress'') = Some x"
  shows "(progress_report obj = [] \<and>
      (\<exists>n. dget working ''Progress'' = JInt n \<and> float_of_int n = None)) \<or>
    (\<exists>p. progress_report obj = [OnProgress p] \<and>
       (p = NaN \<or> p = Inf True \<or> (\<exists>r. r \<le> 100 \<and> p = Fin r)) \<and>
       (x = Inf False \<or> (\<exists>q. x = Fin q \<and> 0 \<le> q) \<longrightarrow> (\<exists>r. p = Fin r \<and> 0 \<le> r \<and> r \<le> 100)))"
  using percent_number [OF assms(2)]
proof
  assume "percent (dget working ''Progress'') = None \<and>
    (\<exists>n. dget working ''Progress'' = JInt n \<and> float_of_int n = None)"
  then show ?thesis using assms by (auto simp: progress_report_def)
next
  let ?c = "\<lambda>y. fmin (fmul y (Fin 100)) (Fin 100)"
  assume "\<exists>y. percent (dget working ''Progress'') = Some (?c y) \<and>
    (y = x \<or> (\<exists>n. dget working ''Progress'' = JInt n \<and> x = Fin (of_int n) \<and>
      round64 (of_int n) = y \<and> is_finite y))"
  then obtain y where p: "percent (dget working ''Progress'') = Some (?c y)"
    and y: "y = x \<or> (\<exists>n. x = Fin (of_int n) \<and> round64 (of_int n) = y \<and> is_finite y)" by blast
  have "y = Inf False \<or> (\<exists>q. y = Fin q \<and> 0 \<le> q)"
    if "x = Inf False \<or> (\<exists>q. x = Fin q \<and> 0 \<le> q)"
    using y that by (cases y) (auto dest: round64_nonneg [rotated])
  then have "\<exists>r. ?c y = Fin r \<and> 0 \<le> r \<and> r \<le> 100"
    if "x = Inf False \<or> (\<exists>q. x = Fin q \<and> 0 \<le> q)"
    using fmin_100_nonneg [of y] fmin_100(3) that by blast
  moreover have "?c y = NaN \<or> ?c y = Inf True \<or> (\<exists>r. r \<le> 100 \<and> ?c y = Fin r)"
    using fmin_100(2,3) [of "fmul y (Fin 100)"]
    by (cases "?c y") (auto simp: fmin_100(1))
  ultimately show ?thesis using assms p by (auto simp: progress_report_def simp del: fmul.simps)
qed

theorem progress_report_bounds_witness:
  "progress_report [(''Working'', JDict [(''Progress'', JFloat (Inf False))])] = [OnProgress (Fin 100)]"
proof -
  let ?o = "[(''Working'', JDict [(''Progress'', JFloat (Inf False))])]"
  have "progress_report ?o \<noteq> []" by (simp add: progress_report_def percent_def)
  then show ?thesis
    using progress_report_bounds [of ?o "[(''Progress'', JFloat (Inf False))]" "Inf False"]
    by (simp add: progress_report_def percent_def fmin_def)
qed

text \<open>Nothing bounds a report from below: a negative fraction and a NaN pass through.\<close>

lemma progress_report_unclamped:
  "progress_report [(''Working'', JDict [(''Progress'', JInt (-1))])] = [OnProgress (Fin (-100))]"
  "progress_report [(''Working'', JDict [(''Progress'', JFloat NaN)])] = [OnProgress NaN]"
  by code_simp+

end
