(* ===== verification/Json.thy ===== *)
theory Json
  imports Progress
begin

text \<open>
  The json module of the standard library, as far as the service uses it: json.loads on text (the
  progress objects, the answers in the end-to-end check) and json.dump of a document (the preset
  file that HandBrake reads).  Code points above U+00FF are outside the model: an escape for one
  gives Outside.  The limit on nesting is a parameter; the fuel of the parser is twice the length of the
  text, which is enough.  The decimal text of a float is a parameter of the printer.
\<close>

section \<open>json.loads\<close>

datatype 'a parsed = Ok 'a string | Bad | Fault exc | Outside | OutOfFuel

definition and_then :: "'a parsed \<Rightarrow> ('a \<Rightarrow> string \<Rightarrow> 'b parsed) \<Rightarrow> 'b parsed" where
  "and_then r k = (case r of
     Ok v rest \<Rightarrow> k v rest | Bad \<Rightarrow> Bad | Fault e \<Rightarrow> Fault e | Outside \<Rightarrow> Outside | OutOfFuel \<Rightarrow> OutOfFuel)"

lemma and_then_simps [simp]:
  "and_then (Ok v rest) k = k v rest" "and_then Bad k = Bad" "and_then (Fault e) k = Fault e"
  "and_then Outside k = Outside" "and_then OutOfFuel k = OutOfFuel"
  by (simp_all add: and_then_def)

definition json_space :: "char \<Rightarrow> bool" where
  "json_space c \<longleftrightarrow> c \<in> {CHR '' '', CHR 0x09, CHR 0x0A, CHR 0x0D}"

definition skip_ws :: "string \<Rightarrow> string" where
  "skip_ws s = dropWhile json_space s"

subsection \<open>Strings\<close>

definition hex_val :: "char \<Rightarrow> nat option" where
  "hex_val c = (let n = ord c in
     if 48 \<le> n \<and> n \<le> 57 then Some (n - 48)
     else if 97 \<le> n \<and> n \<le> 102 then Some (n - 87)
     else if 65 \<le> n \<and> n \<le> 70 then Some (n - 55)
     else None)"

definition hex4 :: "char \<Rightarrow> char \<Rightarrow> char \<Rightarrow> char \<Rightarrow> nat option" where
  "hex4 a b c d = (case (hex_val a, hex_val b, hex_val c, hex_val d) of
     (Some w, Some x, Some y, Some z) \<Rightarrow> Some (4096 * w + 256 * x + 16 * y + z) | _ \<Rightarrow> None)"

definition short_escape :: "char \<Rightarrow> char option" where
  "short_escape c = map_of [(CHR 0x22, CHR 0x22), (CHR 0x5C, CHR 0x5C), (CHR ''/'', CHR ''/''),
     (CHR ''b'', CHR 0x08), (CHR ''f'', CHR 0x0C), (CHR ''n'', CHR 0x0A), (CHR ''r'', CHR 0x0D),
     (CHR ''t'', CHR 0x09)] c"

text \<open>An escape, after the backslash.\<close>

definition scan_escape :: "string \<Rightarrow> char parsed" where
  "scan_escape s = (case s of
     [] \<Rightarrow> Bad
   | e # es \<Rightarrow>
       if e = CHR ''u'' then
         (case es of
            h1 # h2 # h3 # h4 # rest \<Rightarrow>
              (case hex4 h1 h2 h3 h4 of
                 None \<Rightarrow> Bad
               | Some n \<Rightarrow> if n < 256 then Ok (char_of n) rest else Outside)
          | _ \<Rightarrow> Bad)
       else (case short_escape e of None \<Rightarrow> Bad | Some x \<Rightarrow> Ok x es))"

lemma scan_escape_shorter: "scan_escape s = Ok x r \<Longrightarrow> length r < length s"
  by (auto simp: scan_escape_def split: list.splits if_splits option.splits)

lemma scan_escape_total: "scan_escape s \<noteq> OutOfFuel"
  by (simp add: scan_escape_def split: list.split option.split)

text \<open>scanstring, after the opening quote, in strict mode: no bare control characters.\<close>

function scan_string :: "string \<Rightarrow> string \<Rightarrow> string parsed" where
  "scan_string acc [] = Bad"
| "scan_string acc (c # cs) =
     (if c = CHR 0x22 then Ok (rev acc) cs
      else if c = CHR 0x5C then
        (case scan_escape cs of
           Ok x rest \<Rightarrow> scan_string (x # acc) rest
         | Bad \<Rightarrow> Bad | Fault e \<Rightarrow> Fault e | Outside \<Rightarrow> Outside | OutOfFuel \<Rightarrow> OutOfFuel)
      else if ord c < 32 then Bad
      else scan_string (c # acc) cs)"
  by pat_completeness auto
termination
  by (relation "measure (\<lambda>(acc, s). length s)") (auto dest: scan_escape_shorter)

subsection \<open>Numbers\<close>

definition digits_val :: "string \<Rightarrow> int" where
  "digits_val ds = foldl (\<lambda>a c. 10 * a + digit_val c) 0 ds"

definition pow10 :: "int \<Rightarrow> rat" where
  "pow10 e = (if 0 \<le> e then 10 ^ nat e else 1 / 10 ^ nat (- e))"

text \<open>float(text): the decimal value, correctly rounded.\<close>

definition decimal :: "bool \<Rightarrow> string \<Rightarrow> string \<Rightarrow> int \<Rightarrow> pyfloat" where
  "decimal neg ds fs e =
     round64 ((if neg then - 1 else 1) * of_int (digits_val (ds @ fs)) * pow10 (e - int (length fs)))"

text \<open>The three groups of NUMBER_RE: whole part, fraction, exponent, with what follows each.\<close>

definition whole_part :: "string \<Rightarrow> (string \<times> string) option" where
  "whole_part s = (case s of
     c # cs \<Rightarrow> if c = CHR ''0'' then Some ([c], cs)
       else if is_digit c then Some (takeWhile is_digit s, dropWhile is_digit s) else None
   | [] \<Rightarrow> None)"

definition fraction_part :: "string \<Rightarrow> string option \<times> string" where
  "fraction_part s = (case s of
     p # d # ds \<Rightarrow> if p = CHR ''.'' \<and> is_digit d
       then (Some (takeWhile is_digit (d # ds)), dropWhile is_digit (d # ds)) else (None, s)
   | _ \<Rightarrow> (None, s))"

definition exponent_part :: "string \<Rightarrow> int option \<times> string" where
  "exponent_part s = (case s of
     e # t \<Rightarrow>
       if e = CHR ''e'' \<or> e = CHR ''E'' then
         (let u = (case t of g # t' \<Rightarrow> if g = CHR ''-'' \<or> g = CHR ''+'' then t' else t | [] \<Rightarrow> t);
              ds = takeWhile is_digit u in
          if ds = [] then (None, s)
          else (Some (if t \<noteq> [] \<and> hd t = CHR ''-'' then - digits_val ds else digits_val ds), dropWhile is_digit u))
       else (None, s)
   | [] \<Rightarrow> (None, s))"

text \<open>int(text) raises ValueError beyond 4300 digits.\<close>

definition scan_number :: "string \<Rightarrow> json parsed" where
  "scan_number s =
     (let neg = (s \<noteq> [] \<and> hd s = CHR ''-''); t = (if neg then tl s else s) in
      case whole_part t of
        None \<Rightarrow> Bad
      | Some (ds, r1) \<Rightarrow>
          (case fraction_part r1 of
             (fs, r2) \<Rightarrow>
               (case exponent_part r2 of
                  (e, r3) \<Rightarrow>
                    if fs = None \<and> e = None then
                      (if 4300 < length ds then Fault ValueError
                       else Ok (JInt (if neg then - digits_val ds else digits_val ds)) r3)
                    else Ok (JFloat (decimal neg ds (case fs of None \<Rightarrow> [] | Some f \<Rightarrow> f)
                      (case e of None \<Rightarrow> 0 | Some n \<Rightarrow> n))) r3)))"

subsection \<open>Values\<close>

text \<open>The constants that scan_once recognises by their first letter.\<close>

definition constants :: "(string \<times> json) list" where
  "constants = [(''null'', JNull), (''true'', JBool True), (''false'', JBool False),
     (''NaN'', JFloat NaN), (''Infinity'', JFloat (Inf False)), (''-Infinity'', JFloat (Inf True))]"

definition scan_constant :: "string \<Rightarrow> (json \<times> string) option" where
  "scan_constant s = (case find (\<lambda>(k, v). prefix k s) constants of
     Some (k, v) \<Rightarrow> Some (v, drop (length k) s) | None \<Rightarrow> None)"

definition close_or_comma :: "char \<Rightarrow> 'a \<Rightarrow> (string \<Rightarrow> 'a parsed) \<Rightarrow> string \<Rightarrow> 'a parsed" where
  "close_or_comma close v next s = (case skip_ws s of
     c # r \<Rightarrow> if c = close then Ok v r else if c = CHR '','' then next (skip_ws r) else Bad
   | [] \<Rightarrow> Bad)"

fun scan_value :: "nat \<Rightarrow> nat \<Rightarrow> string \<Rightarrow> json parsed"
  and scan_members :: "nat \<Rightarrow> nat \<Rightarrow> dict \<Rightarrow> string \<Rightarrow> json parsed"
  and scan_elements :: "nat \<Rightarrow> nat \<Rightarrow> json list \<Rightarrow> string \<Rightarrow> json parsed" where
  "scan_value 0 levels s = OutOfFuel"
| "scan_value (Suc fuel) levels s =
     (case s of
        [] \<Rightarrow> Bad
      | c # cs \<Rightarrow>
          if c = CHR 0x22 then and_then (scan_string [] cs) (\<lambda>t r. Ok (JStr t) r)
          else if c = CHR ''{'' then
            (if levels = 0 then Fault (OtherException ''RecursionError'')
             else (case skip_ws cs of
               d # r \<Rightarrow> if d = CHR ''}'' then Ok (JDict []) r else scan_members fuel (levels - 1) [] (d # r)
             | [] \<Rightarrow> Bad))
          else if c = CHR ''['' then
            (if levels = 0 then Fault (OtherException ''RecursionError'')
             else (case skip_ws cs of
               d # r \<Rightarrow> if d = CHR '']'' then Ok (JList []) r else scan_elements fuel (levels - 1) [] (d # r)
             | [] \<Rightarrow> Bad))
          else (case scan_constant s of Some (v, r) \<Rightarrow> Ok v r | None \<Rightarrow> scan_number s))"
| "scan_members 0 levels acc s = OutOfFuel"
| "scan_members (Suc fuel) levels acc s =
     (case s of
        [] \<Rightarrow> Bad
      | q # cs \<Rightarrow>
          if q \<noteq> CHR 0x22 then Bad
          else and_then (scan_string [] cs) (\<lambda>k r.
            (case skip_ws r of
               [] \<Rightarrow> Bad
             | c # r1 \<Rightarrow>
                 if c \<noteq> CHR '':'' then Bad
                 else and_then (scan_value fuel levels (skip_ws r1)) (\<lambda>v r2.
                   close_or_comma CHR ''}'' (JDict (AList.update k v acc))
                     (scan_members fuel levels (AList.update k v acc)) r2))))"
| "scan_elements 0 levels acc s = OutOfFuel"
| "scan_elements (Suc fuel) levels acc s =
     and_then (scan_value fuel levels s) (\<lambda>v r.
       close_or_comma CHR '']'' (JList (acc @ [v])) (scan_elements fuel levels (acc @ [v])) r)"

text \<open>json.loads: white space around one value, and nothing else.\<close>

definition py_loads :: "nat \<Rightarrow> decoder" where
  "py_loads limit s = (case scan_value (2 * length s + 1) limit (skip_ws s) of
     Ok v r \<Rightarrow> if skip_ws r = [] then Loaded v else DecodeError
   | Bad \<Rightarrow> DecodeError
   | Fault e \<Rightarrow> LoadsRaised e
   | Outside \<Rightarrow> LoadsRaised (OtherException ''outside the model'')
   | OutOfFuel \<Rightarrow> LoadsRaised (OtherException ''out of fuel''))"

subsection \<open>The fuel is enough\<close>

lemma skip_ws_length: "length (skip_ws s) \<le> length s"
  by (simp add: skip_ws_def length_dropWhile_le)

lemma scan_string_shorter: "scan_string acc s = Ok v r \<Longrightarrow> length r < length s"
proof (induction acc s rule: scan_string.induct)
  case (2 acc c cs)
  then show ?case by (fastforce split: if_splits parsed.splits dest: scan_escape_shorter)
qed simp

lemma fraction_part_length: "fraction_part s = (f, r) \<Longrightarrow> length r \<le> length s"
proof -
  have "length (dropWhile is_digit xs) \<le> Suc (Suc (length xs))" for xs
    using length_dropWhile_le [of is_digit xs] by simp
  then show "fraction_part s = (f, r) \<Longrightarrow> length r \<le> length s"
    by (auto simp: fraction_part_def split: list.splits if_splits intro: le_SucI)
qed

lemma exponent_part_length: "exponent_part s = (e, r) \<Longrightarrow> length r \<le> length s"
proof -
  have "length (dropWhile is_digit u) \<le> length u" for u by (rule length_dropWhile_le)
  then show "exponent_part s = (e, r) \<Longrightarrow> length r \<le> length s"
    by (auto simp: exponent_part_def Let_def split: list.splits if_splits intro: le_SucI)
qed

lemma whole_part_length: "whole_part s = Some (d, r) \<Longrightarrow> length r < length s"
proof -
  have "length (dropWhile is_digit u) \<le> length u" for u by (rule length_dropWhile_le)
  then show "whole_part s = Some (d, r) \<Longrightarrow> length r < length s"
    by (auto simp: whole_part_def less_Suc_eq_le split: list.splits if_splits)
qed

lemma scan_number_shorter: "scan_number s = Ok v r \<Longrightarrow> length r < length s"
proof -
  assume a: "scan_number s = Ok v r"
  define t where "t = (if s \<noteq> [] \<and> hd s = CHR ''-'' then tl s else s)"
  obtain ds r1 where w: "whole_part t = Some (ds, r1)"
    using a by (auto simp: scan_number_def Let_def t_def split: option.splits if_splits)
  obtain fs r2 e r3 where f: "fraction_part r1 = (fs, r2)" "exponent_part r2 = (e, r3)" by force
  have "r = r3"
    using a w f by (auto simp: scan_number_def Let_def t_def [symmetric] split: if_splits)
  then have "length r < length t"
    using whole_part_length [OF w] fraction_part_length [OF f(1)] exponent_part_length [OF f(2)] by simp
  also have "\<dots> \<le> length s" by (simp add: t_def)
  finally show ?thesis .
qed

lemma scan_constant_shorter: "scan_constant s = Some (v, r) \<Longrightarrow> length r < length s"
proof -
  assume "scan_constant s = Some (v, r)"
  then obtain k where f: "find (\<lambda>(k, v). prefix k s) constants = Some (k, v)" and r: "r = drop (length k) s"
    by (auto simp: scan_constant_def split: option.splits)
  then have "prefix k s" "(k, v) \<in> set constants" by (auto simp: find_Some_iff in_set_conv_nth)
  moreover from this(2) have "k \<noteq> []" by (auto simp: constants_def)
  ultimately show ?thesis using r prefix_length_le [of k s] by (cases k) auto
qed

lemma scan_number_total: "scan_number s \<noteq> OutOfFuel"
  by (simp add: scan_number_def Let_def split: option.split prod.split)

lemma scan_string_total: "scan_string acc s \<noteq> OutOfFuel"
proof (induction acc s rule: scan_string.induct)
  case (2 acc c cs)
  then show ?case using scan_escape_total [of cs] by (auto split: parsed.splits)
qed simp

lemma and_then_Ok: "and_then r k = Ok v s \<longleftrightarrow> (\<exists>u t. r = Ok u t \<and> k u t = Ok v s)"
  by (cases r) simp_all

lemma and_then_fuel: "and_then r k = OutOfFuel \<longleftrightarrow> r = OutOfFuel \<or> (\<exists>u t. r = Ok u t \<and> k u t = OutOfFuel)"
  by (cases r) simp_all

lemma close_or_comma_Ok:
  "close_or_comma c v next s = Ok u r \<Longrightarrow>
     length r < length s \<or> (\<exists>t. length t < length s \<and> next t = Ok u r)"
  using skip_ws_length [of s]
  by (auto simp: close_or_comma_def less_Suc_eq_le split: list.splits if_splits)
    (metis Suc_le_eq le_trans less_Suc_eq_le skip_ws_length)

lemma scan_shorter:
  "(scan_value f d s = Ok v r \<longrightarrow> length r < length s) \<and>
   (scan_members f d acc s = Ok v r \<longrightarrow> length r < length s) \<and>
   (scan_elements f d xs s = Ok v r \<longrightarrow> length r < length s)"
proof (induction f arbitrary: d s v r acc xs)
  case (Suc f)
  have ih: "scan_value f d s = Ok v r \<Longrightarrow> length r < length s"
    "scan_members f d acc s = Ok v r \<Longrightarrow> length r < length s"
    "scan_elements f d xs s = Ok v r \<Longrightarrow> length r < length s" for d s v r acc xs
    using Suc.IH by blast+
  have cl: "close_or_comma c u next t = Ok v r \<Longrightarrow> (\<And>x. next x = Ok v r \<Longrightarrow> length r < length x) \<Longrightarrow>
      length r < length t" for c u t and v :: json and r "next"
    by (drule close_or_comma_Ok) (meson less_trans)
  have "length r < length s" if a: "scan_value (Suc f) d s = Ok v r"
  proof (cases s)
    case (Cons c cs)
    have sk: "skip_ws cs = e # t \<Longrightarrow> length t < length cs" for e t
      using skip_ws_length [of cs] by simp
    have n: "(case scan_constant s of Some (v, r) \<Rightarrow> Ok v r | None \<Rightarrow> scan_number s) = Ok v r \<Longrightarrow> length r < length s"
      using scan_constant_shorter scan_number_shorter by (auto split: option.splits)
    show ?thesis using a n sk unfolding Cons
      by (auto simp: and_then_Ok split: if_splits list.splits dest!: scan_string_shorter ih(2,3) simp del: scan_members.simps scan_elements.simps)
  qed (use a in simp)
  moreover have "length r < length s" if a: "scan_members (Suc f) d acc s = Ok v r"
  proof (cases s)
    case (Cons c cs)
    then obtain k r1 where k1: "scan_string [] cs = Ok k r1" and
      rest: "(case skip_ws r1 of [] \<Rightarrow> Bad | c # r2 \<Rightarrow> if c \<noteq> CHR '':'' then Bad
        else and_then (scan_value f d (skip_ws r2)) (\<lambda>v r3. close_or_comma CHR ''}'' (JDict (AList.update k v acc))
          (scan_members f d (AList.update k v acc)) r3)) = Ok v r"
      using a by (auto simp: and_then_Ok split: if_splits)
    then obtain c' r2 u r3 where k: "skip_ws r1 = c' # r2" "scan_value f d (skip_ws r2) = Ok u r3"
      "close_or_comma CHR ''}'' (JDict (AList.update k u acc)) (scan_members f d (AList.update k u acc)) r3 = Ok v r"
      by (cases "skip_ws r1") (auto simp: and_then_Ok split: if_splits)
    have "length r < length r3" using cl [OF k(3)] ih(2) by blast
    moreover have "length r3 < length r2" using ih(1) [OF k(2)] skip_ws_length [of r2] by simp
    moreover have "length r2 < length r1" using k(1) skip_ws_length [of r1] by simp
    ultimately show ?thesis using scan_string_shorter [OF k1] Cons by simp
  qed (use a in simp)
  moreover have "length r < length s" if a: "scan_elements (Suc f) d xs s = Ok v r"
  proof -
    obtain u r1 where k: "scan_value f d s = Ok u r1"
      "close_or_comma CHR '']'' (JList (xs @ [u])) (scan_elements f d (xs @ [u])) r1 = Ok v r"
      using a by (auto simp: and_then_Ok)
    then show ?thesis using cl [OF k(2)] ih(1,3) by (meson less_trans)
  qed
  ultimately show ?case by blast
qed simp

lemma close_or_comma_fuel:
  "close_or_comma c u next s = OutOfFuel \<Longrightarrow> \<exists>t. length t < length s \<and> next t = OutOfFuel"
proof -
  assume a: "close_or_comma c u next s = OutOfFuel"
  then obtain e t where t: "skip_ws s = e # t" "next (skip_ws t) = OutOfFuel"
    by (auto simp: close_or_comma_def split: list.splits if_splits)
  then have "length (skip_ws t) < length s" using skip_ws_length [of s] skip_ws_length [of t] by simp
  then show ?thesis using t(2) by blast
qed

lemma scan_enough:
  "(2 * length s + 1 \<le> f \<longrightarrow> scan_value f d s \<noteq> OutOfFuel) \<and>
   (2 * length s + 1 \<le> f \<longrightarrow> scan_members f d acc s \<noteq> OutOfFuel) \<and>
   (2 * length s + 2 \<le> f \<longrightarrow> scan_elements f d xs s \<noteq> OutOfFuel)"
proof (induction f arbitrary: d s acc xs)
  case (Suc f)
  have ih: "scan_value f d s = OutOfFuel \<Longrightarrow> f < 2 * length s + 1"
    "scan_members f d acc s = OutOfFuel \<Longrightarrow> f < 2 * length s + 1"
    "scan_elements f d xs s = OutOfFuel \<Longrightarrow> f < 2 * length s + 2" for d s acc xs
    using Suc.IH by (meson not_le)+
  have "Suc f < 2 * length s + 1" if a: "scan_value (Suc f) d s = OutOfFuel"
  proof (cases s)
    case (Cons c cs)
    have "scan_string [] cs \<noteq> OutOfFuel" by (rule scan_string_total)
    then consider t where "skip_ws cs = t" "scan_members f (d - 1) [] t = OutOfFuel"
      | t where "skip_ws cs = t" "scan_elements f (d - 1) [] t = OutOfFuel"
      using a scan_number_total [of s] unfolding Cons
      by (auto simp: and_then_fuel split: if_splits list.splits option.splits
          simp del: scan_members.simps scan_elements.simps)
    then have "f < 2 * length cs + 2"
    proof cases
      case 1
      then show ?thesis using ih(2) [OF 1(2)] skip_ws_length [of cs] by simp
    next
      case 2
      then show ?thesis using ih(3) [OF 2(2)] skip_ws_length [of cs] by simp
    qed
    then show ?thesis using Cons by simp
  qed (use a in simp)
  moreover have "Suc f < 2 * length s + 1" if a: "scan_members (Suc f) d acc s = OutOfFuel"
  proof (cases s)
    case (Cons c cs)
    obtain k r1 where k1: "scan_string [] cs = Ok k r1" and
      rest: "(case skip_ws r1 of [] \<Rightarrow> Bad | c # r2 \<Rightarrow> if c \<noteq> CHR '':'' then Bad
        else and_then (scan_value f d (skip_ws r2)) (\<lambda>v r3. close_or_comma CHR ''}'' (JDict (AList.update k v acc))
          (scan_members f d (AList.update k v acc)) r3)) = OutOfFuel"
      using a Cons by (auto simp: and_then_fuel scan_string_total split: if_splits)
    then obtain c' r2 where r2: "skip_ws r1 = c' # r2"
      and k: "scan_value f d (skip_ws r2) = OutOfFuel \<or> (\<exists>u r3. scan_value f d (skip_ws r2) = Ok u r3 \<and>
        close_or_comma CHR ''}'' (JDict (AList.update k u acc)) (scan_members f d (AList.update k u acc)) r3 = OutOfFuel)"
      by (cases "skip_ws r1") (auto simp: and_then_fuel split: if_splits)
    have l: "length (skip_ws r2) < length cs"
      using r2 skip_ws_length [of r1] skip_ws_length [of r2] scan_string_shorter [OF k1] by simp
    from k consider "scan_value f d (skip_ws r2) = OutOfFuel"
      | t u where "scan_members f d (AList.update k u acc) t = OutOfFuel" "length t < length (skip_ws r2)"
      by (meson close_or_comma_fuel scan_shorter less_trans)
    then show ?thesis using ih(1,2) l Cons by cases fastforce+
  qed (use a in simp)
  moreover have "Suc f < 2 * length s + 2" if a: "scan_elements (Suc f) d xs s = OutOfFuel"
  proof -
    from a consider "scan_value f d s = OutOfFuel"
      | t u where "scan_elements f d (xs @ [u]) t = OutOfFuel" "length t < length s"
      by (auto simp: and_then_fuel) (meson close_or_comma_fuel scan_shorter less_trans)
    then show ?thesis using ih(1,3) by cases fastforce+
  qed
  ultimately show ?case by (meson not_le)
qed simp

lemma py_loads_fuel: "scan_value (2 * length s + 1) levels (skip_ws s) \<noteq> OutOfFuel"
proof -
  have "2 * length (skip_ws s) + 1 \<le> 2 * length s + 1" using skip_ws_length [of s] by simp
  then show ?thesis using scan_enough by blast
qed

section \<open>json.dump\<close>

text \<open>The text of an int: str(n).\<close>

fun nat_digits :: "nat \<Rightarrow> string" where
  "nat_digits n = (if n < 10 then [char_of (48 + n)] else nat_digits (n div 10) @ [char_of (48 + n mod 10)])"

declare nat_digits.simps [simp del]

definition int_text :: "int \<Rightarrow> string" where
  "int_text n = (if n < 0 then ''-'' @ nat_digits (nat (- n)) else nat_digits (nat n))"

definition hex_digit :: "nat \<Rightarrow> char" where
  "hex_digit n = (if n < 10 then char_of (48 + n) else char_of (87 + n))"

text \<open>ensure_ascii: every character outside the printable ASCII range is escaped.\<close>

definition escape_char :: "char \<Rightarrow> string" where
  "escape_char c =
     (if c = CHR 0x22 then [CHR 0x5C, CHR 0x22]
      else if c = CHR 0x5C then [CHR 0x5C, CHR 0x5C]
      else if c = CHR 0x0A then [CHR 0x5C, CHR ''n'']
      else if c = CHR 0x0D then [CHR 0x5C, CHR ''r'']
      else if c = CHR 0x09 then [CHR 0x5C, CHR ''t'']
      else if c = CHR 0x0C then [CHR 0x5C, CHR ''f'']
      else if c = CHR 0x08 then [CHR 0x5C, CHR ''b'']
      else if 32 \<le> ord c \<and> ord c \<le> 126 then [c]
      else [CHR 0x5C, CHR ''u'', CHR ''0'', CHR ''0'', hex_digit (ord c div 16), hex_digit (ord c mod 16)])"

definition quote_text :: "string \<Rightarrow> string" where
  "quote_text s = CHR 0x22 # concat (map escape_char s) @ [CHR 0x22]"

text \<open>The default separators; fr is the text of a finite float (float.__repr__).\<close>

fun json_text :: "(rat \<Rightarrow> string) \<Rightarrow> json \<Rightarrow> string" where
  "json_text fr JNull = ''null''"
| "json_text fr (JBool b) = (if b then ''true'' else ''false'')"
| "json_text fr (JInt n) = int_text n"
| "json_text fr (JFloat x) =
     (case x of NaN \<Rightarrow> ''NaN'' | Inf m \<Rightarrow> if m then ''-Infinity'' else ''Infinity'' | Fin q \<Rightarrow> fr q)"
| "json_text fr (JStr s) = quote_text s"
| "json_text fr (JList xs) = ''['' @ py_join '', '' (map (json_text fr) xs) @ '']''"
| "json_text fr (JDict d) =
     ''{'' @ py_join '', '' (map (\<lambda>p. quote_text (fst p) @ '': '' @ json_text fr (snd p)) d) @ ''}''"

section \<open>Round trip\<close>

text \<open>What may follow a number without becoming part of it.\<close>

definition number_end :: "string \<Rightarrow> bool" where
  "number_end r \<longleftrightarrow> r = [] \<or> \<not> is_digit (hd r) \<and> hd r \<notin> {CHR ''.'', CHR ''e'', CHR ''E''}"

text \<open>The documented behaviour of float.__repr__ that the round trip needs: the text reads back as the
  same float, and has no quotes and braces.\<close>

definition float_ok :: "(rat \<Rightarrow> string) \<Rightarrow> rat \<Rightarrow> bool" where
  "float_ok fr q \<longleftrightarrow> list_all plain_char (fr q) \<and>
     (\<forall>r. number_end r \<longrightarrow> scan_number (fr q @ r) = Ok (JFloat (Fin q)) r)"

text \<open>The values that json.loads can produce, nested no deeper than a limit, with ints that int
  accepts and floats whose text is right.\<close>

fun json_ok :: "(rat \<Rightarrow> string) \<Rightarrow> nat \<Rightarrow> json \<Rightarrow> bool" where
  "json_ok fr levels (JInt n) \<longleftrightarrow> length (nat_digits (nat \<bar>n\<bar>)) \<le> 4300"
| "json_ok fr levels (JFloat x) \<longleftrightarrow> (case x of Fin q \<Rightarrow> float_ok fr q | _ \<Rightarrow> True)"
| "json_ok fr levels (JList xs) \<longleftrightarrow> (case levels of 0 \<Rightarrow> False | Suc l \<Rightarrow> \<forall>x\<in>set xs. json_ok fr l x)"
| "json_ok fr levels (JDict d) \<longleftrightarrow> (case levels of 0 \<Rightarrow> False | Suc l \<Rightarrow>
     distinct (map fst d) \<and> (\<forall>p\<in>set d. json_ok fr l (snd p)))"
| "json_ok fr levels _ \<longleftrightarrow> True"

lemma ord_char_of [simp]: "n < 256 \<Longrightarrow> ord (char_of n) = n"
  by (simp add: ord_def)

lemma char_of_ord [simp]: "char_of (ord c) = c"
  by (simp add: ord_def)

lemma ord_less: "ord c < 256"
proof -
  have "ord c = ord (char_of (ord c))" by simp
  also have "\<dots> = ord c mod 256" by (simp add: ord_def)
  finally show ?thesis by (metis mod_less_divisor zero_less_numeral)
qed

lemma hex_val_digit: "n < 16 \<Longrightarrow> hex_val (hex_digit n) = Some n"
  by (cases "n < 10") (auto simp: hex_val_def hex_digit_def Let_def)

lemma scan_escape_char:
  "scan_string acc (escape_char c @ rest) = scan_string (c # acc) rest"
proof (cases "c \<in> {CHR 0x22, CHR 0x5C, CHR 0x0A, CHR 0x0D, CHR 0x09, CHR 0x0C, CHR 0x08}")
  case True
  then show ?thesis by (auto simp: escape_char_def scan_escape_def short_escape_def)
next
  case False
  show ?thesis
  proof (cases "32 \<le> ord c \<and> ord c \<le> 126")
    case True
    then show ?thesis using False by (simp add: escape_char_def)
  next
    case u: False
    have "ord c div 16 < 16" using ord_less [of c] by (simp add: less_mult_imp_div_less)
    then have "hex4 CHR ''0'' CHR ''0'' (hex_digit (ord c div 16)) (hex_digit (ord c mod 16)) = Some (ord c)"
      by (simp add: hex4_def hex_val_digit) (simp add: hex_val_def ord_def)
    then show ?thesis using False u ord_less [of c] by (simp add: escape_char_def scan_escape_def)
  qed
qed

lemma scan_quoted:
  "scan_string acc (concat (map escape_char s) @ CHR 0x22 # rest) = Ok (rev acc @ s) rest"
  by (induction s arbitrary: acc) (simp_all add: scan_escape_char del: scan_string.simps(2), simp)

lemma digit_val_ord: "digit_val c = int (ord c) - 48"
  by (simp add: digit_val_def ord_def of_char_def)

lemma digit_char [simp]:
  "n < 10 \<Longrightarrow> is_digit (char_of (48 + n))" "n < 10 \<Longrightarrow> digit_val (char_of (48 + n)) = int n"
  by (simp_all add: is_digit_def digit_val_ord)

lemma nat_digits_props:
  "nat_digits n \<noteq> [] \<and> list_all is_digit (nat_digits n) \<and> digits_val (nat_digits n) = int n \<and>
   (hd (nat_digits n) = CHR ''0'' \<longrightarrow> n = 0)"
proof (induction n rule: nat_digits.induct)
  case (1 n)
  show ?case
  proof (cases "n < 10")
    case True
    have "n = 0" if "char_of (48 + n) = CHR ''0''"
      using arg_cong [OF that, of ord] True by (simp del: ord_inject) (simp add: ord_def)
    then show ?thesis using True by (auto simp: nat_digits.simps [of n] digits_val_def)
  next
    case False
    then have ih: "nat_digits (n div 10) \<noteq> []" "list_all is_digit (nat_digits (n div 10))"
      "digits_val (nat_digits (n div 10)) = int (n div 10)" "hd (nat_digits (n div 10)) \<noteq> CHR ''0''"
      using 1 by auto
    have "10 * int (n div 10) + int (n mod 10) = int n" by presburger
    then show ?thesis using ih False digit_char [of "n mod 10"]
      by (simp add: nat_digits.simps [of n] digits_val_def)
  qed
qed

lemma number_end_parts [simp]:
  "number_end r \<Longrightarrow> fraction_part r = (None, r)" "number_end r \<Longrightarrow> exponent_part r = (None, r)"
  by (cases r; auto simp: number_end_def fraction_part_def exponent_part_def split: list.split)+

lemma digits_then_end:
  "list_all is_digit ds \<Longrightarrow> number_end r \<Longrightarrow> takeWhile is_digit (ds @ r) = ds \<and> dropWhile is_digit (ds @ r) = r"
  by (cases r) (auto simp: number_end_def list_all_iff takeWhile_append2 dropWhile_append2)

lemma whole_part_nat:
  assumes "number_end r"
  shows "whole_part (nat_digits n @ r) = Some (nat_digits n, r)"
proof (cases "n = 0")
  case True
  have "ord CHR ''0'' = 48" by (simp add: ord_def)
  then have "char_of (48 :: nat) = CHR ''0''" by (metis char_of_ord)
  then show ?thesis using True by (simp add: nat_digits.simps [of 0] whole_part_def)
next
  case False
  have n: "nat_digits n \<noteq> []" "list_all is_digit (nat_digits n)" "hd (nat_digits n) \<noteq> CHR ''0''"
    using nat_digits_props [of n] False by auto
  then obtain c cs where c: "nat_digits n = c # cs" "is_digit c" "c \<noteq> CHR ''0''"
    by (cases "nat_digits n") auto
  then show ?thesis using digits_then_end [OF n(2) assms] by (simp add: whole_part_def)
qed

lemma digit_not_minus: "is_digit c \<Longrightarrow> c \<noteq> CHR ''-''"
  by (auto simp: is_digit_def ord_def)

lemma scan_int:
  assumes "number_end r" and "length (nat_digits (nat \<bar>n\<bar>)) \<le> 4300"
  shows "scan_number (int_text n @ r) = Ok (JInt n) r"
proof -
  note d = nat_digits_props [of "nat \<bar>n\<bar>"]
  note w = whole_part_nat [OF assms(1), of "nat \<bar>n\<bar>"]
  have h: "hd (nat_digits (nat \<bar>n\<bar>) @ r) \<noteq> CHR ''-''"
    using d digit_not_minus by (cases "nat_digits (nat \<bar>n\<bar>)") auto
  show ?thesis
  proof (cases "n < 0")
    case True
    then have t: "int_text n @ r = CHR ''-'' # nat_digits (nat \<bar>n\<bar>) @ r" by (simp add: int_text_def)
    show ?thesis unfolding t scan_number_def Let_def using True assms w d by simp
  next
    case False
    then have t: "int_text n @ r = nat_digits (nat \<bar>n\<bar>) @ r" by (simp add: int_text_def)
    show ?thesis unfolding t scan_number_def Let_def using False assms w d h by simp
  qed
qed

lemma scan_number_head:
  assumes "scan_number s = Ok v r"
  obtains c cs where "s = c # cs" and "c = CHR ''-'' \<and> cs \<noteq> [] \<and> is_digit (hd cs) \<or> is_digit c"
proof -
  have "is_digit CHR ''0''" by (simp add: is_digit_def ord_def)
  then have wp: "whole_part t \<noteq> None \<Longrightarrow> t \<noteq> [] \<and> is_digit (hd t)" for t
    by (auto simp: whole_part_def split: list.splits if_splits)
  have none: "whole_part (if s \<noteq> [] \<and> hd s = CHR ''-'' then tl s else s) = None \<Longrightarrow> scan_number s = Bad"
    unfolding scan_number_def Let_def by simp
  obtain c cs where s: "s = c # cs" using assms none by (cases s) (simp_all add: whole_part_def)
  then have "whole_part (if c = CHR ''-'' then cs else s) \<noteq> None" using none assms by force
  then show thesis using that [OF s] wp [of cs] wp [of s] s by (auto split: if_splits)
qed

lemma number_is_no_constant:
  assumes "c = CHR ''-'' \<and> cs \<noteq> [] \<and> is_digit (hd cs) \<or> is_digit c"
  shows "scan_constant (c # cs) = None"
proof -
  have "\<not> is_digit CHR ''n''" "\<not> is_digit CHR ''t''" "\<not> is_digit CHR ''f''" "\<not> is_digit CHR ''N''"
    "\<not> is_digit CHR ''I''" by (simp_all add: is_digit_def ord_def)
  then have c: "c \<noteq> CHR ''n''" "c \<noteq> CHR ''t''" "c \<noteq> CHR ''f''" "c \<noteq> CHR ''N''" "c \<noteq> CHR ''I''"
    and "c = CHR ''-'' \<Longrightarrow> \<exists>d ds. cs = d # ds \<and> d \<noteq> CHR ''I''"
    using assms digit_not_minus by (auto simp: neq_Nil_conv)
  then have "\<not> prefix ''-Infinity'' (c # cs)" by auto
  then have "find (\<lambda>(k, v). prefix k (c # cs)) constants = None"
    using c [symmetric] by (simp add: constants_def)
  then show ?thesis by (simp add: scan_constant_def)
qed

lemma scan_value_number:
  assumes "scan_number s = Ok v r"
  shows "scan_value (Suc f) l s = Ok v r"
proof -
  obtain c cs where s: "s = c # cs" and c: "c = CHR ''-'' \<and> cs \<noteq> [] \<and> is_digit (hd cs) \<or> is_digit c"
    using scan_number_head [OF assms] .
  have "\<not> is_digit CHR 0x22" "\<not> is_digit CHR ''{''" "\<not> is_digit CHR ''[''" by (simp_all add: is_digit_def ord_def)
  then have "c \<noteq> CHR 0x22" "c \<noteq> CHR ''{''" "c \<noteq> CHR ''[''" using c by auto
  then show ?thesis using assms number_is_no_constant [OF c] by (simp add: s)
qed

text \<open>The text of a value begins with no white space.\<close>

lemma skip_ws_Cons: "\<not> json_space c \<Longrightarrow> skip_ws (c # cs) = c # cs"
  by (simp add: skip_ws_def)

lemma digit_not_space: "is_digit c \<Longrightarrow> \<not> json_space c"
  by (auto simp: json_space_def is_digit_def ord_def)

lemma number_end_delims [simp]: "number_end (CHR '','' # r)" "number_end (CHR '']'' # r)" "number_end (CHR ''}'' # r)" "number_end []"
  by (simp_all add: number_end_def is_digit_def ord_def)

lemma json_text_head:
  assumes "json_ok fr l v"
  obtains c cs where "json_text fr v = c # cs" and "\<not> json_space c" and "c \<noteq> CHR '']''" and "c \<noteq> CHR ''}''"
proof -
  have num: "\<exists>c cs. t = c # cs \<and> \<not> json_space c \<and> c \<noteq> CHR '']'' \<and> c \<noteq> CHR ''}''" if sc: "scan_number t = Ok u r" for t u r
  proof -
    have d: "\<not> is_digit CHR '']''" "\<not> is_digit CHR ''}''" by (simp_all add: is_digit_def ord_def)
    obtain c cs where t: "t = c # cs" and c: "c = CHR ''-'' \<and> cs \<noteq> [] \<and> is_digit (hd cs) \<or> is_digit c"
      using scan_number_head [OF sc] .
    have "\<not> json_space c" using c digit_not_space by (auto simp: json_space_def)
    moreover have "c \<noteq> CHR '']''" "c \<noteq> CHR ''}''" using c d by auto
    ultimately show ?thesis using t by blast
  qed
  show thesis
  proof (cases v)
    case (JInt n)
    then show ?thesis using num scan_int [of "[]" n] assms that by (fastforce simp: number_end_def)
  next
    case (JFloat x)
    show ?thesis
    proof (cases x)
      case (Fin q)
      then have "float_ok fr q" using assms JFloat by simp
      then have "scan_number (fr q @ []) = Ok (JFloat (Fin q)) []"
        using number_end_delims(4) unfolding float_ok_def by blast
      then show ?thesis using num [of "fr q"] JFloat Fin that by fastforce
    next
      case (Inf m)
      then show ?thesis using that JFloat by (cases m) (simp_all add: json_space_def)
    qed (use that JFloat in \<open>simp add: json_space_def\<close>)
  next
    case (JBool b)
    then show ?thesis using that by (cases b) (simp_all add: json_space_def)
  qed (use that in \<open>auto simp: json_space_def quote_text_def\<close>)
qed

lemma close_skip:
  "\<not> json_space close \<Longrightarrow> close_or_comma close v next (close # r) = Ok v r"
  by (simp add: close_or_comma_def skip_ws_def)

lemma comma_skip:
  assumes "\<not> json_space c" and "close \<noteq> CHR '',''"
  shows "close_or_comma close v next (CHR '','' # CHR '' '' # c # cs) = next (c # cs)"
proof -
  have "\<not> json_space CHR '',''" "json_space CHR '' ''" by (simp_all add: json_space_def)
  then show ?thesis using assms by (simp add: close_or_comma_def skip_ws_def)
qed

text \<open>What the induction gives for the items of a list or dictionary: their text is read back.\<close>

definition reads :: "(rat \<Rightarrow> string) \<Rightarrow> nat \<Rightarrow> json \<Rightarrow> bool" where
  "reads fr l v \<longleftrightarrow> json_ok fr l v \<and> (\<forall>f r. number_end r \<longrightarrow> 2 * length (json_text fr v @ r) + 1 \<le> f \<longrightarrow>
     scan_value f l (json_text fr v @ r) = Ok v r)"

lemma reads_elements:
  assumes "\<forall>x\<in>set xs. reads fr l x" and "xs \<noteq> []"
    and "2 * length (py_join '', '' (map (json_text fr) xs) @ '']'' @ r) + 2 \<le> f"
  shows "scan_elements f l acc (py_join '', '' (map (json_text fr) xs) @ '']'' @ r) = Ok (JList (acc @ xs)) r"
  using assms
proof (induction xs arbitrary: acc f)
  case (Cons x xs)
  obtain f' where f: "f = Suc f'" using Cons.prems(3) by (cases f) auto
  have x: "reads fr l x" using Cons.prems(1) by simp
  have sp: "\<not> json_space CHR '']''" by (simp add: json_space_def)
  show ?case
  proof (cases xs)
    case Nil
    then show ?thesis using x Cons.prems(3) sp by (simp add: f reads_def close_skip)
  next
    case (Cons y ys)
    let ?rest = "py_join '', '' (map (json_text fr) xs) @ '']'' @ r"
    have t: "py_join '', '' (map (json_text fr) (x # xs)) @ '']'' @ r = json_text fr x @ '', '' @ ?rest"
      by (simp add: Cons)
    have "json_ok fr l y" using Cons.prems(1) Cons by (simp add: reads_def)
    then obtain c cs where "json_text fr y = c # cs" and c: "\<not> json_space c" by (rule json_text_head)
    then obtain cs' where rest: "?rest = c # cs'" using Cons by (cases ys) auto
    have "scan_value f' l (json_text fr x @ '', '' @ ?rest) = Ok x ('', '' @ ?rest)"
      using x Cons.prems(3) unfolding reads_def t f by simp
    moreover have "close_or_comma CHR '']'' (JList (acc @ [x])) (scan_elements f' l (acc @ [x])) ('', '' @ ?rest) =
        scan_elements f' l (acc @ [x]) ?rest"
      unfolding rest using c by (simp add: comma_skip)
    moreover have "scan_elements f' l (acc @ [x]) ?rest = Ok (JList (acc @ x # xs)) r"
      using Cons.IH [of f' "acc @ [x]"] Cons.prems Cons unfolding t f by simp
    ultimately show ?thesis unfolding t f by simp
  qed
qed simp

definition member_text :: "(rat \<Rightarrow> string) \<Rightarrow> string \<times> json \<Rightarrow> string" where
  "member_text fr p = quote_text (fst p) @ '': '' @ json_text fr (snd p)"

lemma scan_members_one:
  assumes "reads fr l v" and "number_end r" and "2 * length (member_text fr (k, v) @ r) + 1 \<le> Suc f"
  shows "scan_members (Suc f) l acc (member_text fr (k, v) @ r) =
    close_or_comma CHR ''}'' (JDict (AList.update k v acc)) (scan_members f l (AList.update k v acc)) r"
proof -
  obtain c cs where c: "json_text fr v = c # cs" "\<not> json_space c"
    using assms(1) json_text_head unfolding reads_def by metis
  have q: "scan_string [] (concat (map escape_char k) @ CHR 0x22 # CHR '':'' # CHR '' '' # json_text fr v @ r) =
      Ok k (CHR '':'' # CHR '' '' # json_text fr v @ r)"
    by (simp add: scan_quoted)
  have sk: "skip_ws (CHR '':'' # x) = CHR '':'' # x" "skip_ws (CHR '' '' # json_text fr v @ r) = json_text fr v @ r" for x
    using c by (simp_all add: skip_ws_def json_space_def)
  have "scan_value f l (json_text fr v @ r) = Ok v r"
    using assms unfolding reads_def member_text_def quote_text_def by simp
  then show ?thesis using q sk by (simp add: member_text_def quote_text_def)
qed

lemma reads_members:
  assumes "\<forall>p\<in>set d. reads fr l (snd p)" and "d \<noteq> []" and "distinct (map fst (acc @ d))"
    and "2 * length (py_join '', '' (map (member_text fr) d) @ ''}'' @ r) + 1 \<le> f"
  shows "scan_members f l acc (py_join '', '' (map (member_text fr) d) @ ''}'' @ r) = Ok (JDict (acc @ d)) r"
  using assms
proof (induction d arbitrary: acc f)
  case (Cons p d)
  obtain f' where f: "f = Suc f'" using Cons.prems(4) by (cases f) auto
  obtain k v where p: "p = (k, v)" by force
  have v: "reads fr l v" using Cons.prems(1) p by simp
  have up: "AList.update k v acc = acc @ [(k, v)]" using Cons.prems(3) p by (intro update_fresh) auto
  have sp: "\<not> json_space CHR ''}''" by (simp add: json_space_def)
  show ?case
  proof (cases d)
    case Nil
    have "scan_members f l acc (member_text fr (k, v) @ ''}'' @ r) =
        close_or_comma CHR ''}'' (JDict (AList.update k v acc)) (scan_members f' l (AList.update k v acc)) (''}'' @ r)"
      unfolding f using Cons.prems(4) Nil p f by (intro scan_members_one [OF v]) simp_all
    then show ?thesis using sp up by (simp add: Nil p close_skip)
  next
    case (Cons q qs)
    let ?rest = "py_join '', '' (map (member_text fr) d) @ ''}'' @ r"
    have t: "py_join '', '' (map (member_text fr) (p # d)) @ ''}'' @ r = member_text fr (k, v) @ '', '' @ ?rest"
      by (simp add: Cons p)
    obtain cs where rest: "?rest = CHR 0x22 # cs" using Cons by (cases qs) (auto simp: member_text_def quote_text_def)
    have "scan_members f l acc (member_text fr (k, v) @ '', '' @ ?rest) =
        close_or_comma CHR ''}'' (JDict (AList.update k v acc)) (scan_members f' l (AList.update k v acc)) ('', '' @ ?rest)"
      unfolding f using Cons.prems(4) t f by (intro scan_members_one [OF v]) simp_all
    also have "\<dots> = scan_members f' l (acc @ [(k, v)]) ?rest"
      unfolding rest up by (simp add: comma_skip json_space_def)
    also have "\<dots> = Ok (JDict (acc @ p # d)) r"
      using Cons.IH [of "acc @ [(k, v)]" f'] Cons.prems Cons unfolding t f p by simp
    finally show ?thesis unfolding t .
  qed
qed simp

lemma readsI:
  assumes "json_ok fr l v" and "\<And>f r. number_end r \<Longrightarrow> scan_value (Suc f) l (json_text fr v @ r) = Ok v r"
  shows "reads fr l v"
  unfolding reads_def using assms by (metis add.commute plus_1_eq_Suc Suc_le_D)

lemma reads_all: "json_ok fr l v \<Longrightarrow> reads fr l v"
proof (induction v arbitrary: l)
  case JNull
  then show ?case by (rule readsI) (simp add: scan_constant_def constants_def)
next
  case (JBool b)
  then show ?case by (rule readsI) (cases b; simp add: scan_constant_def constants_def)
next
  case (JInt n)
  then show ?case by (intro readsI) (simp_all add: scan_value_number scan_int del: scan_value.simps)
next
  case (JFloat x)
  then show ?case
    by (intro readsI; cases x)
      (simp_all add: scan_value_number float_ok_def del: scan_value.simps,
        simp_all add: scan_constant_def constants_def)
next
  case (JStr s)
  then show ?case by (intro readsI) (simp_all add: quote_text_def scan_quoted)
next
  case (JList xs)
  then obtain l' where l: "l = Suc l'" by (cases l) auto
  then have xs: "\<forall>x\<in>set xs. reads fr l' x" using JList by auto
  have "scan_value f l (json_text fr (JList xs) @ r) = Ok (JList xs) r"
    if e: "2 * length (json_text fr (JList xs) @ r) + 1 \<le> f" for f r
  proof (cases xs)
    case Nil
    then show ?thesis using e l by (cases f) (simp_all add: skip_ws_def json_space_def)
  next
    case (Cons y ys)
    obtain f' where f: "f = Suc f'" using e by (cases f) auto
    obtain c cs where c: "json_text fr y = c # cs" "\<not> json_space c" "c \<noteq> CHR '']''"
      using xs Cons json_text_head unfolding reads_def by (metis list.set_intros(1))
    then obtain cs' where t: "py_join '', '' (map (json_text fr) xs) @ '']'' @ r = c # cs'" using Cons by (cases ys) auto
    have "scan_elements f' l' [] (py_join '', '' (map (json_text fr) xs) @ '']'' @ r) = Ok (JList ([] @ xs)) r"
      using e f Cons by (intro reads_elements [OF xs]) simp_all
    then show ?thesis using c t by (simp add: f l skip_ws_Cons)
  qed
  then show ?case using JList.prems by (simp add: reads_def)
next
  case (JDict d)
  then obtain l' where l: "l = Suc l'" by (cases l) auto
  then have d: "\<forall>p\<in>set d. reads fr l' (snd p)" "distinct (map fst d)"
    using JDict by (auto simp: snds.simps) 
  have mt: "json_text fr (JDict d) = ''{'' @ py_join '', '' (map (member_text fr) d) @ ''}''"
    by (simp add: member_text_def [abs_def])
  have "scan_value f l (json_text fr (JDict d) @ r) = Ok (JDict d) r"
    if e: "2 * length (json_text fr (JDict d) @ r) + 1 \<le> f" for f r
  proof (cases d)
    case Nil
    then show ?thesis using e l by (cases f) (simp_all add: skip_ws_def json_space_def)
  next
    case (Cons y ys)
    obtain f' where f: "f = Suc f'" using e by (cases f) auto
    obtain cs' where t: "py_join '', '' (map (member_text fr) d) @ ''}'' @ r = CHR 0x22 # cs'"
      using Cons by (cases ys) (auto simp: member_text_def quote_text_def)
    have "scan_members f' l' [] (py_join '', '' (map (member_text fr) d) @ ''}'' @ r) = Ok (JDict ([] @ d)) r"
      using e f Cons d unfolding mt by (intro reads_members) simp_all
    then show ?thesis using t by (simp add: f l skip_ws_Cons json_space_def mt del: json_text.simps)
  qed
  then show ?case using JDict.prems by (simp add: reads_def del: json_text.simps)
qed

text \<open>What json.dump writes, json.loads reads back: the service's documents survive the trip through a
  file or a request.\<close>

lemma json_round_trip:
  assumes "json_ok fr levels v"
  shows "py_loads levels (json_text fr v) = Loaded v"
proof -
  obtain c cs where c: "json_text fr v = c # cs" "\<not> json_space c" using json_text_head [OF assms] by metis
  have "scan_value (2 * length (json_text fr v) + 1) levels (json_text fr v @ []) = Ok v []"
    using reads_all [OF assms] by (simp add: reads_def number_end_def del: scan_value.simps)
  then show ?thesis using c by (simp add: py_loads_def skip_ws_Cons skip_ws_def del: scan_value.simps)
qed

end
