(* ===== verification/Runner.thy ===== *)
theory Runner
  imports Progress Encoders
begin

text \<open>
  The HandBrakeCLI driver (app/handbrake_runner.py): the command line, the stdout loop of
  run_encode with its buffer, the end of the process and the verdict, the cancel watcher, and the
  cached version probe.  The child process is a parameter: what its stdout yields, whether it is
  still alive when the loop ends, whether a wait ends in time, its exit code and its stderr.
\<close>

section \<open>The command line\<close>

definition handbrake_cmd :: "string \<Rightarrow> string list" where
  "handbrake_cmd bin = [bin]"

definition build_encode_command :: "string \<Rightarrow> string \<Rightarrow> string \<Rightarrow> string \<Rightarrow> string \<Rightarrow> string list" where
  "build_encode_command bin src dst preset_file preset_name =
     handbrake_cmd bin @ [''--json'', ''--preset-import-file'', preset_file, ''--preset'', preset_name,
       ''-i'', src, ''-o'', dst]"

section \<open>The stdout loop\<close>

definition MAX_BUFFER_BYTES :: int where
  "MAX_BUFFER_BYTES = 1048576"

text \<open>One call of a callback: what it raises, if anything.  An Exception is logged and
  ignored; anything else (KeyboardInterrupt, SystemExit) leaves the loop.\<close>

type_synonym callbacks = "callback \<Rightarrow> exc option"

fun run_calls :: "callbacks \<Rightarrow> callback list \<Rightarrow> callback list \<times> exc option" where
  "run_calls cb [] = ([], None)"
| "run_calls cb (c # cs) =
     (case cb c of
        Some e \<Rightarrow>
          if is_exception e then (let (done', ab) = run_calls cb cs in (c # done', ab))
          else ([c], Some e)
      | None \<Rightarrow> (let (done', ab) = run_calls cb cs in (c # done', ab)))"

text \<open>One line of stdout: the new buffer, the callbacks made, and the exception that leaves the
  loop, if any.\<close>

definition feed_line ::
  "decoder \<Rightarrow> callbacks \<Rightarrow> bool \<Rightarrow> string \<Rightarrow> string \<Rightarrow> string \<times> callback list \<times> exc option" where
  "feed_line loads cb with_eta buf line =
     (let buf' = buf @ line in
      if CHR ''}'' \<notin> set line then (buf', [], None)
      else (case parse_progress_objects loads buf' of
          Inl e \<Rightarrow> (buf', [], Some e)
        | Inr objs \<Rightarrow>
            if objs = [] then
              ((if MAX_BUFFER_BYTES < int (length buf') then [] else buf'), [], None)
            else (let (calls, ab) = run_calls cb (concat (map (report with_eta) objs))
                  in ((if ab = None then [] else buf'), calls, ab))))"

text \<open>What iterating over proc.stdout yields: a line, or an exception of the iterator.\<close>

datatype stdout_item = Line string | ReadError exc

fun read_loop ::
  "decoder \<Rightarrow> callbacks \<Rightarrow> bool \<Rightarrow> stdout_item list \<Rightarrow> string \<Rightarrow> string \<times> callback list \<times> exc option" where
  "read_loop loads cb with_eta [] buf = (buf, [], None)"
| "read_loop loads cb with_eta (ReadError e # items) buf = (buf, [], Some e)"
| "read_loop loads cb with_eta (Line l # items) buf =
     (case feed_line loads cb with_eta buf l of
        (buf', calls, Some e) \<Rightarrow> (buf', calls, Some e)
      | (buf', calls, None) \<Rightarrow>
          (let (buf'', calls', ab) = read_loop loads cb with_eta items buf'
           in (buf'', calls @ calls', ab)))"

section \<open>The end of the process and the verdict\<close>

record child =
  spawn_error :: "exc option"      \<comment> \<open>raised by TemporaryFile or Popen\<close>
  items :: "stdout_item list"      \<comment> \<open>stdout, up to its end or its first exception\<close>
  alive_after_loop :: bool         \<comment> \<open>poll() is None when the loop ends\<close>
  ends_in_time :: bool             \<comment> \<open>wait(timeout=timeout) returns\<close>
  reaped_after_kill :: bool        \<comment> \<open>wait(timeout=10) after kill() returns\<close>
  exit_code :: int
  cancel_set :: bool               \<comment> \<open>cancel_event.is_set() after the exit\<close>
  stderr_text :: string

text \<open>The finally clause: whether the process is killed, and the return code or the exception
  raised by the clause itself (which replaces a pending one).\<close>

definition finish_process :: "bool \<Rightarrow> child \<Rightarrow> bool \<times> int result" where
  "finish_process completed p =
     (if \<not> completed \<and> alive_after_loop p then
        (True, if reaped_after_kill p then Inr (exit_code p) else Inl TimeoutExpired)
      else if alive_after_loop p then
        (if ends_in_time p then (False, Inr (exit_code p))
         else (True, Inl (if reaped_after_kill p then HandBrakeError TimedOut else TimeoutExpired)))
      else (False, Inr (exit_code p)))"

definition verdict :: "int \<Rightarrow> child \<Rightarrow> unit result" where
  "verdict returncode p =
     (if returncode = 0 then Inr ()
      else if cancel_set p then Inl HandBrakeCancelled
      else (let stderr = py_strip (stderr_text p) in
        Inl (HandBrakeError (if stderr \<noteq> [] then ProcessStderr stderr else ExitCode returncode))))"

record encode_run =
  calls :: "callback list"
  killed :: bool
  encode_outcome :: "unit result"

definition run_encode :: "decoder \<Rightarrow> callbacks \<Rightarrow> bool \<Rightarrow> child \<Rightarrow> encode_run" where
  "run_encode loads cb with_eta p =
     (case spawn_error p of
        Some e \<Rightarrow> \<lparr>calls = [], killed = False, encode_outcome = Inl e\<rparr>
      | None \<Rightarrow>
          (case read_loop loads cb with_eta (items p) [] of (_, cs, ab) \<Rightarrow>
           (case finish_process (ab = None) p of (k, fin) \<Rightarrow>
             \<lparr>calls = cs, killed = k,
              encode_outcome =
                (case fin of
                   Inl e \<Rightarrow> Inl e
                 | Inr returncode \<Rightarrow>
                     (case ab of Some e \<Rightarrow> Inl e | None \<Rightarrow> verdict returncode p))\<rparr>)))"

lemma run_calls_subset: "set (fst (run_calls cb cs)) \<subseteq> set cs"
  by (induction cs) (auto split: option.split prod.split)

lemma run_calls_capped: "run_calls cb (concat (map (report we) objs)) = (cs, ab) \<Longrightarrow> c \<in> set cs \<Longrightarrow> capped c"
  using run_calls_subset [of cb "concat (map (report we) objs)"] report_capped by fastforce

lemma feed_line_capped: "feed_line loads cb we buf l = (buf', cs, ab) \<Longrightarrow> c \<in> set cs \<Longrightarrow> capped c"
  by (auto simp: feed_line_def Let_def dest: run_calls_capped split: if_splits sum.splits prod.splits)

lemma read_loop_capped: "read_loop loads cb we its buf = (buf', cs, ab) \<Longrightarrow> c \<in> set cs \<Longrightarrow> capped c"
  by (induction loads cb we its buf arbitrary: buf' cs ab rule: read_loop.induct)
    (auto split: prod.splits option.splits dest: feed_line_capped)

lemma run_encode_capped: "c \<in> set (calls (run_encode loads cb we p)) \<Longrightarrow> capped c"
  by (auto simp: run_encode_def split: option.splits prod.splits dest: read_loop_capped)
section \<open>The cancel watcher\<close>

datatype watch_end = ProcessEnded | ExitedInGrace | EndedBeforeKill | WatchKilled

text \<open>Round k of the watcher's loop sees whether the process is alive, then whether the cancel
  event fires within a quarter of a second; after it fired, the process gets a grace wait and
  one more poll.  The fuel bounds the rounds.\<close>

fun watch_cancel ::
  "nat \<Rightarrow> (nat \<Rightarrow> bool) \<Rightarrow> (nat \<Rightarrow> bool) \<Rightarrow> bool \<Rightarrow> bool \<Rightarrow> nat \<Rightarrow> watch_end option" where
  "watch_cancel 0 alive fired exits_in_grace alive_after k = None"
| "watch_cancel (Suc fuel) alive fired exits_in_grace alive_after k =
     (if \<not> alive k then Some ProcessEnded
      else if fired k then
        Some (if exits_in_grace then ExitedInGrace
              else if alive_after then WatchKilled else EndedBeforeKill)
      else watch_cancel fuel alive fired exits_in_grace alive_after (Suc k))"

section \<open>The version probe\<close>

definition digits1 :: "string \<Rightarrow> (string \<times> string) option" where
  "digits1 s = (case takeWhile is_digit s of [] \<Rightarrow> None | ds \<Rightarrow> Some (ds, dropWhile is_digit s))"

text \<open>The match of the version pattern at the start of a string.  A shorter run of digits is never
  followed by a dot, so the greedy run is the only candidate.\<close>

definition version_at :: "string \<Rightarrow> string option" where
  "version_at s =
     (case digits1 s of
        Some (a, c1 # r1) \<Rightarrow>
          (if c1 \<noteq> CHR ''.'' then None
           else case digits1 r1 of
             Some (b, c2 # r2) \<Rightarrow>
               (if c2 \<noteq> CHR ''.'' then None
                else case digits1 r2 of
                  Some (c, _) \<Rightarrow> Some (a @ ''.'' @ b @ ''.'' @ c)
                | None \<Rightarrow> None)
           | _ \<Rightarrow> None)
      | _ \<Rightarrow> None)"

fun VERSION_search :: "string \<Rightarrow> string option" where
  "VERSION_search [] = None"
| "VERSION_search (c # cs) =
     (case version_at (c # cs) of Some v \<Rightarrow> Some v | None \<Rightarrow> VERSION_search cs)"

record hb_info =
  available :: bool
  version :: string
  hb_path :: string

definition handbrake_probe :: "string \<Rightarrow> (string \<Rightarrow> string option) \<Rightarrow> runner \<Rightarrow> hb_info" where
  "handbrake_probe bin which run =
     (case which bin of
        None \<Rightarrow> \<lparr>available = False, version = [], hb_path = []\<rparr>
      | Some p \<Rightarrow>
          (case run [bin, ''--version''] of
             Ran rc out err \<Rightarrow>
               if rc \<noteq> 0 then \<lparr>available = False, version = [], hb_path = p\<rparr>
               else (let banner = (if out \<noteq> [] then out else err) in
                 \<lparr>available = True,
                  version = (case VERSION_search banner of Some v \<Rightarrow> v | None \<Rightarrow> []),
                  hb_path = p\<rparr>)
           | _ \<Rightarrow> \<lparr>available = False, version = [], hb_path = p\<rparr>))"

text \<open>functools.lru_cache(maxsize=1) on a function without arguments keeps its first result.\<close>

definition handbrake_info ::
  "string \<Rightarrow> (string \<Rightarrow> string option) \<Rightarrow> runner \<Rightarrow> hb_info option \<Rightarrow> hb_info \<times> hb_info option" where
  "handbrake_info bin which run cache =
     (case cache of
        Some i \<Rightarrow> (i, cache)
      | None \<Rightarrow> (let i = handbrake_probe bin which run in (i, Some i)))"

section \<open>The loop never fails a healthy encode\<close>

definition benign :: "callbacks \<Rightarrow> bool" where
  "benign cb \<longleftrightarrow> (\<forall>c e. cb c = Some e \<longrightarrow> is_exception e)"

text \<open>json.loads raises nothing but JSONDecodeError on the object texts of an output.  The buffer always
  holds consecutive lines, so these are the object texts of the stretches of the output.\<close>

definition decodes_output :: "decoder \<Rightarrow> string list \<Rightarrow> bool" where
  "decodes_output loads ls \<longleftrightarrow> (\<forall>seg. sublist seg ls \<longrightarrow>
     (\<forall>t\<in>set (object_texts (concat seg)). \<forall>e. loads t \<noteq> LoadsRaised e))"

lemma run_calls_benign: "benign cb \<Longrightarrow> run_calls cb cs = (cs, None)"
  by (induction cs) (auto simp: benign_def split: option.split)

lemma benign_silent [simp]: "benign (\<lambda>_. None)"
  by (simp add: benign_def)

lemma feed_line_benign:
  "benign cb \<Longrightarrow> feed_line loads cb we buf l = feed_line loads (\<lambda>_. None) we buf l"
  by (simp add: feed_line_def run_calls_benign Let_def split: sum.split)

lemma read_loop_benign:
  "benign cb \<Longrightarrow> read_loop loads cb we its buf = read_loop loads (\<lambda>_. None) we its buf"
proof (induction its arbitrary: buf)
  case (Cons i its)
  then show ?case by (cases i) (simp_all add: feed_line_benign [of cb] split: prod.split option.split)
qed simp

lemma parse_total: "decodes_output loads ls \<Longrightarrow> sublist seg ls \<Longrightarrow> \<exists>ds. parse_progress_objects loads (concat seg) = Inr ds"
  unfolding parse_progress_objects_eq using decode_all_decoded [of "object_texts (concat seg)" loads]
  by (auto simp: decodes_output_def)

lemma read_loop_completes:
  assumes "decodes_output loads (pre @ ls)" and "benign cb"
  shows "\<exists>buf' cs. read_loop loads cb we (map Line ls) (concat pre) = (buf', cs, None)"
  using assms(1)
proof (induction ls arbitrary: pre)
  case (Cons l ls)
  have "sublist (pre @ [l]) (pre @ l # ls)" by (metis append_Cons append_assoc append_Nil sublist_append_rightI)
  then obtain ds where "parse_progress_objects loads (concat pre @ l) = Inr ds"
    using parse_total [OF Cons.prems, of "pre @ [l]"] by auto
  then have "\<exists>b c. feed_line loads cb we (concat pre) l = (b, c, None) \<and> (b = concat (pre @ [l]) \<or> b = concat [])"
    by (simp add: feed_line_def Let_def run_calls_benign assms(2))
  then obtain b c where fl: "feed_line loads cb we (concat pre) l = (b, c, None)" "b = concat (pre @ [l]) \<or> b = concat []"
    by blast
  have "decodes_output loads ls"
    using Cons.prems unfolding decodes_output_def
    by (metis append_Cons append_assoc append_Nil sublist_append_leftI sublist_order.order_trans)
  then have "\<exists>buf' cs. read_loop loads cb we (map Line ls) b = (buf', cs, None)"
    using Cons.IH [of "pre @ [l]"] Cons.IH [of "[]"] Cons.prems fl(2) by auto
  then show ?case using fl(1) by auto
qed simp

text \<open>C24. Progress reporting cannot fail a healthy encode: if stdout is read to its end, json.loads
  raises nothing but JSONDecodeError on the objects in it and the callbacks raise only Exceptions,
  then whatever else HandBrake prints and whatever the callbacks raise, the encode runs exactly as with
  callbacks that raise nothing: every callback is still made, the process is killed only when it
  outlives the timeout, and a process that ends in time gives the verdict of its exit code.\<close>

theorem run_encode_reporting_is_harmless:
  assumes "decodes_output loads ls" and "benign cb" and "spawn_error p = None" and "items p = map Line ls"
  shows "run_encode loads cb we p = run_encode loads (\<lambda>_. None) we p \<and>
    killed (run_encode loads cb we p) = (alive_after_loop p \<and> \<not> ends_in_time p) \<and>
    (killed (run_encode loads cb we p) \<or>
       encode_outcome (run_encode loads cb we p) =
         (if exit_code p = 0 then Inr ()
          else if cancel_set p then Inl HandBrakeCancelled
          else if py_strip (stderr_text p) = [] then Inl (HandBrakeError (ExitCode (exit_code p)))
          else Inl (HandBrakeError (ProcessStderr (py_strip (stderr_text p))))))"
proof -
  obtain b cs where "read_loop loads cb we (items p) [] = (b, cs, None)"
    using read_loop_completes [of loads "[]" ls cb we] assms by auto
  then show ?thesis using assms(3) read_loop_benign [OF assms(2), of loads we "items p" "[]"]
    by (auto simp: run_encode_def finish_process_def verdict_def Let_def)
qed

definition demo_child :: child where
  "demo_child = \<lparr>spawn_error = None, items = [Line ''noise }''], alive_after_loop = True, ends_in_time = True,
     reaped_after_kill = True, exit_code = 0, cancel_set = True, stderr_text = []\<rparr>"

text \<open>C11. Success, exactly: run_encode returns normally if and only if the process was spawned, its
  stdout was consumed without an escaping exception, it ended by itself (before the loop's end
  or within the timeout) and its exit code is 0.  The cancel event does not appear: a cancel that
  arrives after a clean exit changes nothing.\<close>

theorem run_encode_succeeds_iff:
  "encode_outcome (run_encode loads cb we p) = Inr () \<longleftrightarrow>
     spawn_error p = None \<and> snd (snd (read_loop loads cb we (items p) [])) = None \<and>
     \<not> (alive_after_loop p \<and> \<not> ends_in_time p) \<and> exit_code p = 0"
proof (cases "read_loop loads cb we (items p) []")
  case (fields b cs ab)
  then show ?thesis
    by (cases "spawn_error p"; cases ab)
      (auto simp: run_encode_def finish_process_def verdict_def Let_def split: if_splits)
qed

text \<open>C12. An aborted loop never hides its exception behind a timeout: when an exception leaves the
  stdout loop, the process is killed if and only if it is still alive, and run_encode raises
  that very exception, unless even the killed process cannot be reaped in ten seconds.\<close>

theorem run_encode_aborted_loop:
  assumes "spawn_error p = None" and "snd (snd (read_loop loads cb we (items p) [])) = Some e"
  shows "killed (run_encode loads cb we p) = alive_after_loop p \<and>
    encode_outcome (run_encode loads cb we p) =
      Inl (if alive_after_loop p \<and> \<not> reaped_after_kill p then TimeoutExpired else e)"
proof -
  obtain b cs where "read_loop loads cb we (items p) [] = (b, cs, Some e)"
    using assms(2) by (metis prod.collapse)
  then show ?thesis using assms(1) by (auto simp: run_encode_def finish_process_def)
qed

theorem run_encode_aborted_loop_witness:
  "encode_outcome (run_encode (\<lambda>_. DecodeError) (\<lambda>_. None) True
     (demo_child\<lparr>items := [ReadError ValueError]\<rparr>)) = Inl ValueError"
  using run_encode_aborted_loop [of "demo_child\<lparr>items := [ReadError ValueError]\<rparr>"
      "\<lambda>_. DecodeError" "\<lambda>_. None" True ValueError]
  by (simp add: demo_child_def)

section \<open>Streaming\<close>

lemma object_texts_append:
  "object_texts (a @ b) = object_texts a @ fst (lex_all (snd (lex_all lex_init a)) b)"
  by (simp add: object_texts_def lex_all_append split: prod.split)

lemma lex_end_append:
  "snd (lex_all lx (a @ b)) = snd (lex_all (snd (lex_all lx a)) b)"
  by (simp add: lex_all_append split: prod.split)

text \<open>A reporting block: a group of lines, such as one pretty-printed state object with log lines
  before it, in which the first top-level object closes in the last line, which ends outside
  any object and string; something in it decodes to a dictionary, and it fits the buffer.\<close>

definition reporting_block :: "decoder \<Rightarrow> string list \<Rightarrow> bool" where
  "reporting_block loads ls \<longleftrightarrow>
     ls \<noteq> [] \<and> object_texts (concat (butlast ls)) = [] \<and> snd (lex_all lex_init (concat ls)) = lex_init \<and>
     (case decode_all loads (object_texts (concat ls)) of Inr ds \<Rightarrow> ds \<noteq> [] | Inl _ \<Rightarrow> False) \<and>
     int (length (concat ls)) \<le> MAX_BUFFER_BYTES"

lemma read_loop_accumulates:
  assumes "object_texts (buf @ concat ls) = []" and "int (length (buf @ concat ls)) \<le> MAX_BUFFER_BYTES"
  shows "read_loop loads cb we (map Line ls @ rest) buf = read_loop loads cb we rest (buf @ concat ls)"
  using assms
proof (induction ls arbitrary: buf)
  case (Cons l ls)
  have "object_texts (buf @ l) = []"
    using Cons.prems(1) object_texts_append [of "buf @ l" "concat ls"] by simp
  then have "feed_line loads cb we buf l = (buf @ l, [], None)"
    using Cons.prems(2) by (simp add: feed_line_def parse_progress_objects_eq Let_def)
  then show ?case using Cons.IH [of "buf @ l"] Cons.prems by (simp split: prod.split)
qed simp

lemma read_loop_block:
  assumes b: "reporting_block loads ls" and cb: "benign cb"
    and d: "decode_all loads (object_texts (concat ls)) = Inr ds"
  shows "read_loop loads cb we (map Line ls @ rest) [] =
    (case read_loop loads cb we rest [] of (buf', cs, ab) \<Rightarrow>
       (buf', concat (map (report we) ds) @ cs, ab))"
proof -
  obtain pre l where ls: "ls = pre @ [l]" using b by (cases ls rule: rev_cases) (auto simp: reporting_block_def)
  have quiet: "object_texts (concat pre) = []" and len: "int (length (concat pre)) \<le> MAX_BUFFER_BYTES"
    using b by (auto simp: reporting_block_def ls)
  have ds: "ds \<noteq> []" using b d by (simp add: reporting_block_def)
  have "CHR ''}'' \<in> set l"
  proof (rule ccontr)
    assume "CHR ''}'' \<notin> set l"
    then have "object_texts (concat ls) = []"
      using quiet by (simp add: ls object_texts_append lex_all_no_brace)
    then show False using d ds by simp
  qed
  then have "feed_line loads cb we (concat pre) l = ([], concat (map (report we) ds), None)"
    using d ds by (simp add: feed_line_def parse_progress_objects_eq ls run_calls_benign cb)
  then show ?thesis
    using read_loop_accumulates [of "[]" pre loads cb we "Line l # rest"] quiet len
    by (simp add: ls split: prod.split)
qed

lemma read_loop_blocks:
  assumes "\<forall>b\<in>set blocks. reporting_block loads b" and "benign cb"
  shows "\<exists>ds. decode_all loads (object_texts (concat (concat blocks))) = Inr ds \<and>
      snd (lex_all lex_init (concat (concat blocks))) = lex_init \<and>
      read_loop loads cb we (map Line (concat blocks)) [] = ([], concat (map (report we) ds), None)"
  using assms(1)
proof (induction blocks)
  case Nil
  show ?case by (simp add: object_texts_def)
next
  case (Cons b bs)
  then obtain ds where ds: "decode_all loads (object_texts (concat (concat bs))) = Inr ds"
    "snd (lex_all lex_init (concat (concat bs))) = lex_init"
    "read_loop loads cb we (map Line (concat bs)) [] = ([], concat (map (report we) ds), None)"
    by auto
  have b: "reporting_block loads b" "snd (lex_all lex_init (concat b)) = lex_init"
    using Cons.prems by (auto simp: reporting_block_def)
  then obtain es where es: "decode_all loads (object_texts (concat b)) = Inr es"
    by (auto simp: reporting_block_def split: sum.splits)
  have "object_texts (concat (concat (b # bs))) = object_texts (concat b) @ object_texts (concat (concat bs))"
    using b(2) by (simp add: object_texts_append) (simp add: object_texts_def)
  moreover have "snd (lex_all lex_init (concat (concat (b # bs)))) = lex_init"
    using b(2) ds(2) by (simp add: lex_end_append)
  ultimately show ?case
    using ds(1,3) es read_loop_block [OF b(1) assms(2) es, of we "map Line (concat bs)"]
    by (simp add: decode_all_append)
qed

text \<open>C20. Reading line by line loses nothing: when HandBrake's output is a sequence of reporting
  blocks, the buffered loop makes exactly the callbacks of the objects that
  parse_progress_objects finds in the whole output at once, in order, and ends with an empty
  buffer.\<close>

theorem stdout_loop_equals_whole_parse:
  assumes "\<forall>b\<in>set blocks. reporting_block loads b" and "benign cb"
  shows "\<exists>ds. parse_progress_objects loads (concat (concat blocks)) = Inr ds \<and>
    read_loop loads cb we (map Line (concat blocks)) [] = ([], concat (map (report we) ds), None)"
  using read_loop_blocks [OF assms, of we] by (auto simp: parse_progress_objects_eq)

text \<open>Recovery: if a stray opening brace has kept every object from completing, then the first
  line with a closing brace that makes the buffer exceed the cap empties it, and the blocks that
  follow are reported in full.\<close>

theorem stdout_loop_recovers:
  assumes "CHR ''}'' \<in> set l" and "parse_progress_objects loads (buf @ l) = Inr []"
    and "MAX_BUFFER_BYTES < int (length (buf @ l))"
    and "\<forall>b\<in>set blocks. reporting_block loads b" and "benign cb"
  shows "\<exists>ds. parse_progress_objects loads (concat (concat blocks)) = Inr ds \<and>
    read_loop loads cb we (map Line (l # concat blocks)) buf = ([], concat (map (report we) ds), None)"
proof -
  have "feed_line loads cb we buf l = ([], [], None)"
    using assms(1-3) by (simp add: feed_line_def)
  then show ?thesis using read_loop_blocks [OF assms(4,5), of we]
    by (auto simp: parse_progress_objects_eq)
qed

text \<open>A stray-brace buffer of any length, and a pretty-printed block.\<close>

definition stray_buffer :: "nat \<Rightarrow> string" where
  "stray_buffer n = replicate (Suc (Suc n)) (CHR ''{'')"

lemma lex_braces:
  "lex_all (Lexer d False False t) (replicate n (CHR ''{'')) =
     ([], Lexer (d + n) False False (replicate n (CHR ''{'') @ t))"
  by (induction n arbitrary: d t) (simp_all add: Let_def replicate_app_Cons_same)

lemma stray_buffer_parse: "parse_progress_objects loads (stray_buffer n @ ''}'') = Inr []"
  unfolding parse_progress_objects_eq object_texts_append
  by (simp add: stray_buffer_def object_texts_def lex_init_def lex_braces Let_def del: replicate.simps)

definition demo_block :: "string list" where
  "demo_block = [''Progress: {'', '' {'', '' }'', ''}'']"

definition demo_state :: dict where
  "demo_state = [(''Working'', JDict [(''Progress'', JFloat (Fin (1 / 2)))])]"

lemma demo_block_reports:
  "reporting_block (\<lambda>_. Loaded (JDict demo_state)) demo_block"
  by (simp add: reporting_block_def demo_block_def object_texts_def lex_init_def Let_def
      MAX_BUFFER_BYTES_def demo_state_def)

theorem stdout_loop_equals_whole_parse_witness:
  "\<exists>ds. parse_progress_objects (\<lambda>_. Loaded (JDict demo_state)) (concat (concat [demo_block, demo_block])) =
       Inr ds \<and>
     read_loop (\<lambda>_. Loaded (JDict demo_state)) (\<lambda>_. Some ValueError) True
       (map Line (concat [demo_block, demo_block])) [] = ([], concat (map (report True) ds), None)"
  by (rule stdout_loop_equals_whole_parse) (auto simp: demo_block_reports benign_def)

theorem stdout_loop_recovers_witness:
  "\<exists>ds. parse_progress_objects (\<lambda>_. Loaded (JDict demo_state)) (concat (concat [demo_block])) = Inr ds \<and>
     read_loop (\<lambda>_. Loaded (JDict demo_state)) (\<lambda>_. None) True (map Line (''}'' # concat [demo_block]))
       (stray_buffer (nat 1048576)) = ([], concat (map (report True) ds), None)"
proof (rule stdout_loop_recovers)
  show "MAX_BUFFER_BYTES < int (length (stray_buffer (nat 1048576) @ ''}''))"
    unfolding stray_buffer_def length_append length_replicate by (simp add: MAX_BUFFER_BYTES_def)
qed (simp_all only: stray_buffer_parse, simp_all add: demo_block_reports)

section \<open>The size of the buffer\<close>

lemma feed_line_bounded:
  "feed_line loads cb we buf l = (buf', cs, None) \<Longrightarrow> CHR ''}'' \<in> set l \<Longrightarrow>
     int (length buf') \<le> MAX_BUFFER_BYTES"
  by (auto simp: feed_line_def Let_def MAX_BUFFER_BYTES_def split: sum.splits if_splits prod.splits)

lemma read_loop_no_brace:
  "\<forall>l\<in>set ls. CHR ''}'' \<notin> set l \<Longrightarrow>
     read_loop loads cb we (map Line ls @ rest) buf = read_loop loads cb we rest (buf @ concat ls)"
  by (induction ls arbitrary: buf) (auto simp: feed_line_def Let_def split: prod.split)

lemma read_loop_append:
  "read_loop loads cb we (xs @ ys) buf =
     (case read_loop loads cb we xs buf of
        (b, cs, Some e) \<Rightarrow> (b, cs, Some e)
      | (b, cs, None) \<Rightarrow> (case read_loop loads cb we ys b of (b', cs', ab) \<Rightarrow> (b', cs @ cs', ab)))"
proof (induction xs arbitrary: buf)
  case (Cons x xs)
  then show ?case by (cases x) (auto split: prod.splits option.splits)
qed (simp split: prod.split)

text \<open>The cap works at lines with a closing brace: after any output whose last such line is l,
  the buffer holds at most the cap plus the lines since l, whatever the buffer held before.\<close>

theorem stdout_buffer_bounded_after_brace:
  assumes "read_loop loads cb we (map Line (ls @ l # tail)) buf = (buf', cs, None)"
    and "CHR ''}'' \<in> set l" and "\<forall>x\<in>set tail. CHR ''}'' \<notin> set x"
  shows "int (length buf') \<le> MAX_BUFFER_BYTES + int (length (concat tail))"
proof -
  obtain b c where b: "read_loop loads cb we (map Line ls) buf = (b, c, None)"
    and r: "\<exists>c'. read_loop loads cb we (Line l # map Line tail) b = (buf', c', None)"
    using assms(1) read_loop_append [of loads cb we "map Line ls" "Line l # map Line tail" buf]
    by (simp del: read_loop.simps split: prod.splits option.splits)
  obtain m c'' where f: "feed_line loads cb we b l = (m, c'', None)"
    using r by (auto split: prod.splits option.splits)
  have "buf' = m @ concat tail"
    using r f read_loop_no_brace [OF assms(3), of loads cb we "[]" m]
    by (auto split: prod.splits)
  then show ?thesis using feed_line_bounded [OF f assms(2)] by simp
qed

theorem stdout_buffer_bounded_after_brace_witness:
  "read_loop (\<lambda>_. DecodeError) (\<lambda>_. None) True (map Line ([] @ ''a}'' # [''b'', ''c''])) ''x'' =
     (''xa}bc'', [], None) \<and>
   int (length ''xa}bc'') \<le> MAX_BUFFER_BYTES + int (length (concat [''b'', ''c'']))"
proof -
  have r: "read_loop (\<lambda>_. DecodeError) (\<lambda>_. None) True (map Line ([] @ ''a}'' # [''b'', ''c''])) ''x'' =
     (''xa}bc'', [], None)" by code_simp
  show ?thesis using r stdout_buffer_bounded_after_brace [OF r] by simp
qed

text \<open>Without a closing brace the cap is never consulted: whatever its length, output whose
  lines hold no closing brace is kept in full, and nothing is reported.\<close>

theorem stdout_buffer_unbounded_without_brace:
  assumes "\<forall>l\<in>set ls. CHR ''}'' \<notin> set l"
  shows "read_loop loads cb we (map Line ls) buf = (buf @ concat ls, [], None)"
  using read_loop_no_brace [OF assms, of loads cb we "[]" buf] by simp

theorem stdout_buffer_unbounded_without_brace_witness:
  "fst (read_loop (\<lambda>_. DecodeError) (\<lambda>_. None) True (map Line (replicate 3 ''log'')) []) = ''logloglog''"
  using stdout_buffer_unbounded_without_brace
    [of "replicate 3 ''log''" "\<lambda>_. DecodeError" "\<lambda>_. None" True "[]"]
  by (simp add: numeral_3_eq_3)

section \<open>The watcher\<close>

lemma ex_less_Suc_shift:
  "(\<exists>n. n < Suc m \<and> P n) \<longleftrightarrow> P 0 \<or> (\<exists>n. n < m \<and> P (Suc n))"
  using less_Suc_eq_0_disj by auto

lemma all_less_Suc_shift: "(\<forall>j<Suc n. P j) \<longleftrightarrow> P 0 \<and> (\<forall>j<n. P (Suc j))"
  using less_Suc_eq_0_disj by auto

text \<open>C31. The watcher kills the process exactly when a cancel fires while the process is alive,
  after rounds in which it was alive and nothing fired, and the process outlives the grace
  wait and the last poll; and it always returns once the process has ended or the cancel
  fired.\<close>

theorem watch_cancel_kills_iff:
  "(watch_cancel fuel alive fired exits_in_grace alive_after k = Some WatchKilled \<longleftrightarrow>
     (\<exists>n. n < fuel \<and> alive (k + n) \<and> fired (k + n) \<and>
       (\<forall>j<n. alive (k + j) \<and> \<not> fired (k + j))) \<and> \<not> exits_in_grace \<and> alive_after) \<and>
   (watch_cancel fuel alive fired exits_in_grace alive_after k \<noteq> None \<longleftrightarrow>
     (\<exists>n. n < fuel \<and> (fired (k + n) \<or> \<not> alive (k + n))))"
proof (induction fuel arbitrary: k)
  case (Suc fuel)
  show ?case
    using Suc.IH [of "Suc k"]
    by (cases "alive k"; cases "fired k") (simp_all add: ex_less_Suc_shift all_less_Suc_shift)
qed simp

theorem watch_cancel_kills_iff_witness:
  "watch_cancel 5 (\<lambda>_. True) (\<lambda>n. 2 \<le> n) False True 0 = Some WatchKilled"
proof -
  have "\<exists>n. n < (5 :: nat) \<and> 2 \<le> 0 + n \<and> (\<forall>j<n. \<not> 2 \<le> 0 + j)" by (rule exI [of _ 2]) simp
  then show ?thesis
    using watch_cancel_kills_iff [of 5 "\<lambda>_. True" "\<lambda>n. 2 \<le> n" False True 0] by simp
qed

section \<open>The version probe\<close>

lemma digits1_run:
  assumes "ds \<noteq> []" and "list_all is_digit ds" and "case r of [] \<Rightarrow> True | c # _ \<Rightarrow> \<not> is_digit c"
  shows "digits1 (ds @ r) = Some (ds, r)"
proof -
  have "takeWhile is_digit (ds @ r) = ds" "dropWhile is_digit (ds @ r) = r"
    using assms(2,3) by (auto simp: list_all_iff takeWhile_append2 dropWhile_append2 split: list.splits)
  then show ?thesis using assms(1) by (simp only: digits1_def) (simp split: list.split)
qed

lemma dot_not_digit [simp]: "\<not> is_digit CHR ''.''"
  by (simp add: is_digit_def ord_def)

lemma version_at_shape:
  assumes "a \<noteq> []" "b \<noteq> []" "c \<noteq> []" "list_all is_digit (a @ b @ c)"
    and "case r of [] \<Rightarrow> True | x # _ \<Rightarrow> \<not> is_digit x"
  shows "version_at (a @ ''.'' @ b @ ''.'' @ c @ r) = Some (a @ ''.'' @ b @ ''.'' @ c)"
  using assms by (simp add: version_at_def digits1_run)

lemma version_at_no_digit: "\<not> is_digit x \<Longrightarrow> version_at (x # s) = None"
  by (simp add: version_at_def digits1_def)

lemma VERSION_search_skip:
  "\<forall>x\<in>set pre. \<not> is_digit x \<Longrightarrow> VERSION_search (pre @ s) = VERSION_search s"
  by (induction pre) (simp_all add: version_at_no_digit)

text \<open>The version probe never raises and asks the binary once: whatever the binary does, the
  first call decides and every later call returns the same description, also when PATH or the
  binary's behaviour has changed; and the binary counts as available exactly when it is on
  PATH, runs and exits with 0.\<close>

theorem handbrake_info_probe:
  "fst (handbrake_info bin which' run' (snd (handbrake_info bin which run None))) =
     fst (handbrake_info bin which run None) \<and>
   (available (fst (handbrake_info bin which run None)) \<longleftrightarrow>
     which bin \<noteq> None \<and> (\<exists>out err. run [bin, ''--version''] = Ran 0 out err))"
  by (auto simp: handbrake_info_def handbrake_probe_def Let_def split: option.splits run_result.splits)

text \<open>The version is the first X.Y.Z of the banner when no digit stands before it, read from
  stdout, or from stderr when stdout is empty.\<close>

theorem handbrake_info_version:
  assumes "which bin = Some p" and "run [bin, ''--version''] = Ran 0 out err"
    and "(if out = [] then err else out) = pre @ a @ ''.'' @ b @ ''.'' @ c @ r"
    and "\<forall>x\<in>set pre. \<not> is_digit x"
    and "a \<noteq> []" and "b \<noteq> []" and "c \<noteq> []" and "list_all is_digit (a @ b @ c)"
    and "case r of [] \<Rightarrow> True | x # _ \<Rightarrow> \<not> is_digit x"
  shows "fst (handbrake_info bin which run None) =
    \<lparr>available = True, version = a @ ''.'' @ b @ ''.'' @ c, hb_path = p\<rparr>"
proof -
  let ?s = "a @ ''.'' @ b @ ''.'' @ c @ r"
  have "VERSION_search ?s = Some (a @ ''.'' @ b @ ''.'' @ c)"
    using version_at_shape [OF assms(5-9)] assms(5) by (cases a) simp_all
  then have "VERSION_search (if out \<noteq> [] then out else err) = Some (a @ ''.'' @ b @ ''.'' @ c)"
    using VERSION_search_skip [OF assms(4), of ?s] assms(3) by (simp split: if_splits)
  then show ?thesis
    by (simp add: handbrake_info_def handbrake_probe_def assms(1,2) Let_def)
qed

theorem handbrake_info_version_witness:
  "version (fst (handbrake_info ''HandBrakeCLI'' (\<lambda>_. Some ''/usr/bin/HandBrakeCLI'')
     (\<lambda>_. Ran 0 [] ''HandBrake 1.10.2 (x)'') None)) = ''1.10.2''"
  using handbrake_info_version [of "\<lambda>_. Some ''/usr/bin/HandBrakeCLI''" "''HandBrakeCLI''" "''/usr/bin/HandBrakeCLI''"
    "\<lambda>_. Ran 0 [] ''HandBrake 1.10.2 (x)''" "[]" "''HandBrake 1.10.2 (x)''" "''HandBrake ''" "''1''" "''10''" "''2''" "'' (x)''"]
  by (simp add: is_digit_def ord_def)

end
