(* ===== verification/Printed.thy ===== *)
theory Printed
  imports Json Runner
begin

text \<open>
  JSON text as HandBrake prints it.  HandBrake lays its objects out over several lines with its own
  spacing and its own text for numbers, so the printer is not a function here: a syntax tree
  records one way to write a value, with the white space at every place where the grammar
  allows it, every form of escape, and numbers digit by digit.  Whatever tree HandBrake prints,
  json.loads returns the value the tree stands for.
\<close>

section \<open>Syntax trees\<close>

datatype str_part = Bare char | Short char | Hex char char char char

fun part_text :: "str_part \<Rightarrow> string" where
  "part_text (Bare c) = [c]"
| "part_text (Short e) = [CHR 0x5C, e]"
| "part_text (Hex a b c d) = [CHR 0x5C, CHR ''u'', a, b, c, d]"

fun part_ok :: "str_part \<Rightarrow> bool" where
  "part_ok (Bare c) \<longleftrightarrow> c \<noteq> CHR 0x22 \<and> c \<noteq> CHR 0x5C \<and> 32 \<le> ord c"
| "part_ok (Short e) \<longleftrightarrow> short_escape e \<noteq> None"
| "part_ok (Hex a b c d) \<longleftrightarrow> (case hex4 a b c d of Some n \<Rightarrow> n < 256 | None \<Rightarrow> False)"

fun part_char :: "str_part \<Rightarrow> char" where
  "part_char (Bare c) = c"
| "part_char (Short e) = the (short_escape e)"
| "part_char (Hex a b c d) = char_of (the (hex4 a b c d))"

definition parts_text :: "str_part list \<Rightarrow> string" where
  "parts_text ps = CHR 0x22 # concat (map part_text ps) @ [CHR 0x22]"

text \<open>A number: sign, whole part, fraction, and exponent with its letter and sign.\<close>

datatype num = Num bool string "string option" "(char \<times> string \<times> string) option"

fun num_text :: "num \<Rightarrow> string" where
  "num_text (Num neg ds fs e) = (if neg then ''-'' else []) @ ds @
     (case fs of None \<Rightarrow> [] | Some f \<Rightarrow> CHR ''.'' # f) @
     (case e of None \<Rightarrow> [] | Some (x, sign, es) \<Rightarrow> x # sign @ es)"

definition digits_ok :: "string \<Rightarrow> bool" where
  "digits_ok ds \<longleftrightarrow> ds \<noteq> [] \<and> list_all is_digit ds"

fun num_ok :: "num \<Rightarrow> bool" where
  "num_ok (Num neg ds fs e) \<longleftrightarrow> digits_ok ds \<and> (hd ds = CHR ''0'' \<longrightarrow> ds = ''0'') \<and>
     (case fs of None \<Rightarrow> True | Some f \<Rightarrow> digits_ok f) \<and>
     (case e of None \<Rightarrow> True | Some (x, sign, es) \<Rightarrow> x \<in> {CHR ''e'', CHR ''E''} \<and> sign \<in> {[], ''+'', ''-''} \<and> digits_ok es) \<and>
     (fs = None \<and> e = None \<longrightarrow> length ds \<le> 4300)"

fun num_value :: "num \<Rightarrow> json" where
  "num_value (Num neg ds fs e) =
     (if fs = None \<and> e = None then JInt (if neg then - digits_val ds else digits_val ds)
      else JFloat (decimal neg ds (case fs of None \<Rightarrow> [] | Some f \<Rightarrow> f)
        (case e of None \<Rightarrow> 0 | Some (x, sign, es) \<Rightarrow> if sign = ''-'' then - digits_val es else digits_val es)))"

text \<open>The strings beside a subtree are the white space before and after it; a member has white space before
  its key, around the colon and after its value.\<close>

datatype tree = Const string | Number num | Quoted "str_part list"
    | EmptyArr string | Arr items | EmptyObj string | Obj members
  and items = Item string tree string | Items string tree string items
  and members = Member string "str_part list" string string tree string
    | Members string "str_part list" string string tree string members

primrec tree_text :: "tree \<Rightarrow> string" and items_text :: "items \<Rightarrow> string" and members_text :: "members \<Rightarrow> string" where
  "tree_text (Const name) = name"
| "tree_text (Number n) = num_text n"
| "tree_text (Quoted ps) = parts_text ps"
| "tree_text (EmptyArr w) = CHR ''['' # w @ '']''"
| "tree_text (Arr xs) = CHR ''['' # items_text xs @ '']''"
| "tree_text (EmptyObj w) = CHR ''{'' # w @ ''}''"
| "tree_text (Obj ms) = CHR ''{'' # members_text ms @ ''}''"
| "items_text (Item w t w') = w @ tree_text t @ w'"
| "items_text (Items w t w' xs) = w @ tree_text t @ w' @ CHR '','' # items_text xs"
| "members_text (Member w k w1 w2 t w') = w @ parts_text k @ w1 @ CHR '':'' # w2 @ tree_text t @ w'"
| "members_text (Members w k w1 w2 t w' ms) =
     w @ parts_text k @ w1 @ CHR '':'' # w2 @ tree_text t @ w' @ CHR '','' # members_text ms"

definition space_ok :: "string \<Rightarrow> bool" where
  "space_ok w \<longleftrightarrow> list_all json_space w"

primrec tree_ok :: "tree \<Rightarrow> nat \<Rightarrow> bool" and items_ok :: "items \<Rightarrow> nat \<Rightarrow> bool" and members_ok :: "members \<Rightarrow> nat \<Rightarrow> bool" where
  "tree_ok (Const name) l \<longleftrightarrow> name \<in> set (map fst constants)"
| "tree_ok (Number n) l \<longleftrightarrow> num_ok n"
| "tree_ok (Quoted ps) l \<longleftrightarrow> list_all part_ok ps"
| "tree_ok (EmptyArr w) l \<longleftrightarrow> 0 < l \<and> space_ok w"
| "tree_ok (Arr xs) l \<longleftrightarrow> 0 < l \<and> items_ok xs (l - 1)"
| "tree_ok (EmptyObj w) l \<longleftrightarrow> 0 < l \<and> space_ok w"
| "tree_ok (Obj ms) l \<longleftrightarrow> 0 < l \<and> members_ok ms (l - 1)"
| "items_ok (Item w t w') l \<longleftrightarrow> space_ok w \<and> tree_ok t l \<and> space_ok w'"
| "items_ok (Items w t w' xs) l \<longleftrightarrow> space_ok w \<and> tree_ok t l \<and> space_ok w' \<and> items_ok xs l"
| "members_ok (Member w k w1 w2 t w') l \<longleftrightarrow> space_ok w \<and> list_all part_ok k \<and> space_ok w1 \<and> space_ok w2 \<and>
     tree_ok t l \<and> space_ok w'"
| "members_ok (Members w k w1 w2 t w' ms) l \<longleftrightarrow> space_ok w \<and> list_all part_ok k \<and> space_ok w1 \<and> space_ok w2 \<and>
     tree_ok t l \<and> space_ok w' \<and> members_ok ms l"

text \<open>A repeated key takes the later value in the place of the first.\<close>

primrec tree_value :: "tree \<Rightarrow> json" and items_value :: "items \<Rightarrow> json list" and members_value :: "members \<Rightarrow> dict \<Rightarrow> dict" where
  "tree_value (Const name) = the (map_of constants name)"
| "tree_value (Number n) = num_value n"
| "tree_value (Quoted ps) = JStr (map part_char ps)"
| "tree_value (EmptyArr w) = JList []"
| "tree_value (Arr xs) = JList (items_value xs)"
| "tree_value (EmptyObj w) = JDict []"
| "tree_value (Obj ms) = JDict (members_value ms [])"
| "items_value (Item w t w') = [tree_value t]"
| "items_value (Items w t w' xs) = tree_value t # items_value xs"
| "members_value (Member w k w1 w2 t w') acc = AList.update (map part_char k) (tree_value t) acc"
| "members_value (Members w k w1 w2 t w' ms) acc =
     members_value ms (AList.update (map part_char k) (tree_value t) acc)"

section \<open>Reading a tree back\<close>

lemma space_skip: "space_ok w \<Longrightarrow> skip_ws (w @ s) = skip_ws s"
  by (simp add: space_ok_def skip_ws_def dropWhile_append2 list_all_iff)

lemma scan_part: "part_ok p \<Longrightarrow> scan_string acc (part_text p @ s) = scan_string (part_char p # acc) s"
  by (cases p) (auto simp: scan_escape_def short_escape_def split: option.splits if_splits)

lemma scan_parts:
  "list_all part_ok ps \<Longrightarrow> scan_string acc (concat (map part_text ps) @ CHR 0x22 # s) = Ok (rev acc @ map part_char ps) s"
  by (induction ps arbitrary: acc) (simp_all add: scan_part del: scan_string.simps(2), simp)

lemma digits_take:
  assumes "list_all is_digit ds" and "s = [] \<or> \<not> is_digit (hd s)"
  shows "takeWhile is_digit (ds @ s) = ds" "dropWhile is_digit (ds @ s) = s"
  using assms by (cases s; simp add: list_all_iff takeWhile_append2 dropWhile_append2)+

lemma whole_part_digits:
  assumes "digits_ok ds" and "hd ds = CHR ''0'' \<longrightarrow> ds = ''0''" and "s = [] \<or> \<not> is_digit (hd s)"
  shows "whole_part (ds @ s) = Some (ds, s)"
proof -
  obtain c cs where c: "ds = c # cs" "is_digit c" "list_all is_digit ds"
    using assms(1) by (cases ds) (auto simp: digits_ok_def)
  show ?thesis
  proof (cases "c = CHR ''0''")
    case True
    then show ?thesis using assms(2) c by (simp add: whole_part_def)
  next
    case False
    then show ?thesis using digits_take [OF c(3) assms(3)] c by (simp add: whole_part_def)
  qed
qed

lemma fraction_part_digits:
  assumes "digits_ok f" and "s = [] \<or> \<not> is_digit (hd s)"
  shows "fraction_part (CHR ''.'' # f @ s) = (Some f, s)"
proof -
  obtain c cs where c: "f = c # cs" "is_digit c" "list_all is_digit f"
    using assms(1) by (cases f) (auto simp: digits_ok_def)
  then show ?thesis using digits_take [OF c(3) assms(2)] by (simp add: fraction_part_def)
qed

lemma exponent_part_digits:
  assumes "digits_ok es" and "x \<in> {CHR ''e'', CHR ''E''}" and "sign \<in> {[], ''+'', ''-''}" and "s = [] \<or> \<not> is_digit (hd s)"
  shows "exponent_part (x # sign @ es @ s) = (Some (if sign = ''-'' then - digits_val es else digits_val es), s)"
proof -
  obtain c cs where c: "es = c # cs" "is_digit c" "list_all is_digit es"
    using assms(1) by (cases es) (auto simp: digits_ok_def)
  have "c \<noteq> CHR ''-''" "c \<noteq> CHR ''+''" using c(2) by (auto simp: is_digit_def ord_def)
  then show ?thesis using digits_take [OF c(3) assms(4)] c assms(2,3)
    by (auto simp: exponent_part_def Let_def)
qed

lemma scan_num:
  assumes "num_ok n" and "number_end r"
  shows "scan_number (num_text n @ r) = Ok (num_value n) r"
proof -
  obtain neg ds fs e where n: "n = Num neg ds fs e" by (cases n)
  define ft where "ft = (case fs of None \<Rightarrow> [] | Some f \<Rightarrow> CHR ''.'' # f)"
  define et where "et = (case e of None \<Rightarrow> [] | Some (x, sign, es) \<Rightarrow> x # sign @ es)"
  define ev where "ev = map_option (\<lambda>(x, sign, es). if sign = ''-'' then - digits_val es else digits_val es) e"
  have ok: "digits_ok ds" "hd ds = CHR ''0'' \<longrightarrow> ds = ''0''" "\<forall>f. fs = Some f \<longrightarrow> digits_ok f"
    "\<forall>x sign es. e = Some (x, sign, es) \<longrightarrow> x \<in> {CHR ''e'', CHR ''E''} \<and> sign \<in> {[], ''+'', ''-''} \<and> digits_ok es"
    "fs = None \<and> e = None \<longrightarrow> length ds \<le> 4300"
    using assms(1) by (auto simp: n split: option.splits)
  have letters: "\<not> is_digit CHR ''.''" "\<not> is_digit CHR ''e''" "\<not> is_digit CHR ''E''" by (simp_all add: is_digit_def ord_def)
  have r: "r = [] \<or> \<not> is_digit (hd r)" using assms(2) by (auto simp: number_end_def)
  have er: "et @ r = [] \<or> \<not> is_digit (hd (et @ r))"
    using r ok(4) letters by (auto simp: et_def split: option.splits)
  have fr: "ft @ et @ r = [] \<or> \<not> is_digit (hd (ft @ et @ r))"
    using er letters by (auto simp: ft_def split: option.splits)
  have w: "whole_part (ds @ ft @ et @ r) = Some (ds, ft @ et @ r)" using whole_part_digits [OF ok(1,2) fr] .
  have e: "exponent_part (et @ r) = (ev, r)"
  proof (cases e)
    case None
    then show ?thesis using assms(2) by (simp add: et_def ev_def)
  next
    case (Some y)
    obtain x sign es where y: "e = Some (x, sign, es)" using Some by (cases y) auto
    then show ?thesis using exponent_part_digits [of es x sign r] ok(4) r by (simp add: et_def ev_def)
  qed
  have f: "fraction_part (ft @ et @ r) = (fs, et @ r)"
  proof (cases fs)
    case (Some f)
    then show ?thesis using fraction_part_digits er ok(3) by (simp add: ft_def)
  next
    case None
    have "fraction_part (et @ r) = (None, et @ r)"
    proof (cases e)
      case (Some y)
      obtain x sign es where y: "e = Some (x, sign, es)" using Some by (cases y) auto
      then have "x \<noteq> CHR ''.''" using ok(4) by auto
      then show ?thesis by (simp add: et_def y fraction_part_def split: list.split)
    qed (use assms(2) in \<open>simp add: et_def\<close>)
    then show ?thesis by (simp add: None ft_def)
  qed
  obtain c cs where c: "ds = c # cs" "is_digit c" using ok(1) by (cases ds) (auto simp: digits_ok_def)
  have nm: "c \<noteq> CHR ''-''" using digit_not_minus c(2) by blast
  have t: "num_text n @ r = (if neg then ''-'' else []) @ ds @ ft @ et @ r" by (simp add: n ft_def et_def)
  have "scan_number (num_text n @ r) =
      (if fs = None \<and> ev = None then
         (if 4300 < length ds then Fault ValueError else Ok (JInt (if neg then - digits_val ds else digits_val ds)) r)
       else Ok (JFloat (decimal neg ds (case fs of None \<Rightarrow> [] | Some f \<Rightarrow> f) (case ev of None \<Rightarrow> 0 | Some k \<Rightarrow> k))) r)"
    using w f e nm c by (cases neg) (simp_all add: t scan_number_def Let_def)
  then show ?thesis using ok(5) by (auto simp: n ev_def split: option.splits)
qed

text \<open>The text of a value begins with no white space and no closing bracket.\<close>

lemma num_text_head:
  assumes "num_ok n"
  obtains c cs where "num_text n = c # cs" and "\<not> json_space c" and "c \<noteq> CHR '']''" and "c \<noteq> CHR ''}''"
proof -
  have "scan_number (num_text n @ []) = Ok (num_value n) []" using assms by (intro scan_num) simp_all
  then obtain c cs where n: "num_text n = c # cs" and c: "c = CHR ''-'' \<and> cs \<noteq> [] \<and> is_digit (hd cs) \<or> is_digit c"
    using scan_number_head by (metis append_Nil2)
  have "\<not> is_digit CHR '']''" "\<not> is_digit CHR ''}''" by (simp_all add: is_digit_def ord_def)
  then have "c \<noteq> CHR '']''" "c \<noteq> CHR ''}''" "\<not> json_space c"
    using c digit_not_space by (auto simp: json_space_def)
  then show thesis using n that by blast
qed

lemma tree_head:
  assumes "tree_ok t l"
  obtains c cs where "tree_text t = c # cs" and "\<not> json_space c" and "c \<noteq> CHR '']''" and "c \<noteq> CHR ''}''"
proof (cases t)
  case (Const name)
  then have "name \<in> {''null'', ''true'', ''false'', ''NaN'', ''Infinity'', ''-Infinity''}"
    using assms by (simp add: constants_def)
  then show thesis using that Const by (auto simp: json_space_def)
next
  case (Number n)
  then show thesis using assms num_text_head [of n] that by auto
qed (use that in \<open>auto simp: json_space_def parts_text_def\<close>)

lemma tree_skip:
  assumes "tree_ok t l" and "space_ok w"
  shows "skip_ws (w @ tree_text t @ s) = tree_text t @ s"
proof -
  obtain c cs where "tree_text t = c # cs" "\<not> json_space c" using tree_head [OF assms(1)] by metis
  then show ?thesis using space_skip [OF assms(2)] by (simp add: skip_ws_Cons)
qed

lemma number_end_space: "space_ok w \<Longrightarrow> number_end s \<Longrightarrow> number_end (w @ s)"
  by (cases w) (auto simp: number_end_def space_ok_def json_space_def is_digit_def ord_def)

lemma scan_const:
  assumes "name \<in> set (map fst constants)"
  shows "scan_value (Suc f) l (name @ r) = Ok (the (map_of constants name)) r"
proof -
  have "name \<in> {''null'', ''true'', ''false'', ''NaN'', ''Infinity'', ''-Infinity''}"
    using assms by (simp add: constants_def)
  then show ?thesis by (auto simp: scan_constant_def constants_def)
qed

lemma close_after: "\<not> json_space c \<Longrightarrow> space_ok w \<Longrightarrow> close_or_comma c v next (w @ c # r) = Ok v r"
  by (simp add: close_or_comma_def space_skip skip_ws_Cons)

lemma comma_after: "space_ok w \<Longrightarrow> c \<noteq> CHR '','' \<Longrightarrow> close_or_comma c v next (w @ CHR '','' # r) = next (skip_ws r)"
  by (simp add: close_or_comma_def space_skip skip_ws_Cons json_space_def)

lemma scan_key:
  assumes "list_all part_ok k" and "space_ok w1" and "space_ok w2" and "tree_ok t l"
    and "scan_value f l (tree_text t @ s) = Ok v s"
  shows "scan_members (Suc f) l acc (parts_text k @ w1 @ CHR '':'' # w2 @ tree_text t @ s) =
    close_or_comma CHR ''}'' (JDict (AList.update (map part_char k) v acc))
      (scan_members f l (AList.update (map part_char k) v acc)) s"
proof -
  have "skip_ws (w1 @ CHR '':'' # x) = CHR '':'' # x" for x
    using assms(2) by (simp add: space_skip skip_ws_Cons json_space_def)
  then show ?thesis using assms tree_skip [OF assms(4,3)] scan_parts [OF assms(1)]
    by (simp add: parts_text_def)
qed

lemma tree_start:
  assumes "tree_ok t l" and "space_ok w"
  obtains c cs where "skip_ws (w @ tree_text t @ s) = c # cs" and "c \<noteq> CHR '']''"
  using tree_skip [OF assms, of s] tree_head [OF assms(1)] by (metis append_Cons)

lemma items_start:
  assumes "items_ok xs l"
  obtains c cs where "skip_ws (items_text xs @ s) = c # cs" and "c \<noteq> CHR '']''"
proof (cases xs)
  case (Item w t w')
  then show thesis using assms tree_start [of t l w "w' @ s"] that by auto
next
  case (Items w t w' ys)
  then show thesis using assms tree_start [of t l w "w' @ CHR '','' # items_text ys @ s"] that by auto
qed

lemma members_start: "members_ok ms l \<Longrightarrow> \<exists>cs. skip_ws (members_text ms @ s) = CHR 0x22 # cs"
  by (cases ms) (auto simp: space_skip parts_text_def skip_ws_Cons json_space_def)

definition tree_reads :: "tree \<Rightarrow> bool" where
  "tree_reads t \<longleftrightarrow> (\<forall>l f r. tree_ok t l \<longrightarrow> number_end r \<longrightarrow> 2 * length (tree_text t @ r) + 1 \<le> f \<longrightarrow>
     scan_value f l (tree_text t @ r) = Ok (tree_value t) r)"

definition items_reads :: "items \<Rightarrow> bool" where
  "items_reads xs \<longleftrightarrow> (\<forall>l f r acc. items_ok xs l \<longrightarrow> 2 * length (items_text xs @ CHR '']'' # r) + 2 \<le> f \<longrightarrow>
     scan_elements f l acc (skip_ws (items_text xs @ CHR '']'' # r)) = Ok (JList (acc @ items_value xs)) r)"

definition members_reads :: "members \<Rightarrow> bool" where
  "members_reads ms \<longleftrightarrow> (\<forall>l f r acc. members_ok ms l \<longrightarrow> 2 * length (members_text ms @ CHR ''}'' # r) + 1 \<le> f \<longrightarrow>
     scan_members f l acc (skip_ws (members_text ms @ CHR ''}'' # r)) = Ok (JDict (members_value ms acc)) r)"

lemma tree_readsI:
  assumes "\<And>l f r. tree_ok t l \<Longrightarrow> number_end r \<Longrightarrow> 2 * length (tree_text t @ r) \<le> f \<Longrightarrow>
    scan_value (Suc f) l (tree_text t @ r) = Ok (tree_value t) r"
  shows "tree_reads t"
  unfolding tree_reads_def using assms by (metis Suc_eq_plus1 Suc_le_D Suc_le_mono)

lemma tree_readsD:
  "tree_reads t \<Longrightarrow> tree_ok t l \<Longrightarrow> number_end r \<Longrightarrow> 2 * length (tree_text t @ r) + 1 \<le> f \<Longrightarrow>
     scan_value f l (tree_text t @ r) = Ok (tree_value t) r"
  by (simp only: tree_reads_def)

lemma items_readsD:
  "items_reads xs \<Longrightarrow> items_ok xs l \<Longrightarrow> 2 * length (items_text xs @ CHR '']'' # r) + 2 \<le> f \<Longrightarrow>
     scan_elements f l acc (skip_ws (items_text xs @ CHR '']'' # r)) = Ok (JList (acc @ items_value xs)) r"
  by (simp only: items_reads_def)

lemma members_readsD:
  "members_reads ms \<Longrightarrow> members_ok ms l \<Longrightarrow> 2 * length (members_text ms @ CHR ''}'' # r) + 1 \<le> f \<Longrightarrow>
     scan_members f l acc (skip_ws (members_text ms @ CHR ''}'' # r)) = Ok (JDict (members_value ms acc)) r"
  by (simp only: members_reads_def)

lemma reads_Arr:
  assumes "items_reads xs"
  shows "tree_reads (Arr xs)"
proof (rule tree_readsI)
  fix l f r assume a: "tree_ok (Arr xs) l" "2 * length (tree_text (Arr xs) @ r) \<le> f"
  then have ok: "items_ok xs (l - 1)" "l \<noteq> 0" by auto
  obtain c cs where c: "skip_ws (items_text xs @ CHR '']'' # r) = c # cs" "c \<noteq> CHR '']''"
    using items_start [OF ok(1)] .
  have "scan_elements f (l - 1) [] (skip_ws (items_text xs @ CHR '']'' # r)) = Ok (JList ([] @ items_value xs)) r"
    by (rule items_readsD [OF assms ok(1)]) (use a(2) in simp)
  then show "scan_value (Suc f) l (tree_text (Arr xs) @ r) = Ok (tree_value (Arr xs)) r"
    using c ok(2) by simp
qed

lemma reads_Obj:
  assumes "members_reads ms"
  shows "tree_reads (Obj ms)"
proof (rule tree_readsI)
  fix l f r assume a: "tree_ok (Obj ms) l" "2 * length (tree_text (Obj ms) @ r) \<le> f"
  then have ok: "members_ok ms (l - 1)" "l \<noteq> 0" by auto
  obtain cs where c: "skip_ws (members_text ms @ CHR ''}'' # r) = CHR 0x22 # cs"
    using members_start [OF ok(1)] by blast
  have "scan_members f (l - 1) [] (skip_ws (members_text ms @ CHR ''}'' # r)) = Ok (JDict (members_value ms [])) r"
    by (rule members_readsD [OF assms ok(1)]) (use a(2) in simp)
  then show "scan_value (Suc f) l (tree_text (Obj ms) @ r) = Ok (tree_value (Obj ms)) r"
    using c ok(2) by simp
qed

lemma reads_Item:
  assumes "tree_reads t"
  shows "items_reads (Item w t w')"
  unfolding items_reads_def
proof (intro allI impI)
  fix l f r acc
  assume a: "items_ok (Item w t w') l" "2 * length (items_text (Item w t w') @ CHR '']'' # r) + 2 \<le> f"
  then obtain g where g: "f = Suc g" by (cases f) auto
  have "scan_value g l (tree_text t @ w' @ CHR '']'' # r) = Ok (tree_value t) (w' @ CHR '']'' # r)"
    using a by (intro tree_readsD [OF assms] number_end_space) (simp_all add: g)
  then show "scan_elements f l acc (skip_ws (items_text (Item w t w') @ CHR '']'' # r)) =
      Ok (JList (acc @ items_value (Item w t w'))) r"
    using a by (simp add: g tree_skip [of t l] close_after json_space_def)
qed

lemma reads_Items:
  assumes "tree_reads t" and "items_reads xs"
  shows "items_reads (Items w t w' xs)"
  unfolding items_reads_def
proof (intro allI impI)
  fix l f r acc
  assume a: "items_ok (Items w t w' xs) l" "2 * length (items_text (Items w t w' xs) @ CHR '']'' # r) + 2 \<le> f"
  then obtain g where g: "f = Suc g" by (cases f) auto
  let ?s = "w' @ CHR '','' # items_text xs @ CHR '']'' # r"
  have "scan_value g l (tree_text t @ ?s) = Ok (tree_value t) ?s"
    using a by (intro tree_readsD [OF assms(1)] number_end_space) (simp_all add: g)
  moreover have "scan_elements g l (acc @ [tree_value t]) (skip_ws (items_text xs @ CHR '']'' # r)) =
      Ok (JList ((acc @ [tree_value t]) @ items_value xs)) r"
    using a by (intro items_readsD [OF assms(2)]) (simp_all add: g)
  ultimately show "scan_elements f l acc (skip_ws (items_text (Items w t w' xs) @ CHR '']'' # r)) =
      Ok (JList (acc @ items_value (Items w t w' xs))) r"
    using a by (simp add: g tree_skip [of t l] comma_after)
qed

lemma key_skip: "space_ok w \<Longrightarrow> skip_ws (w @ parts_text k @ s) = parts_text k @ s"
  by (simp add: space_skip parts_text_def skip_ws_Cons json_space_def)

lemma reads_Member:
  assumes "tree_reads t"
  shows "members_reads (Member w k w1 w2 t w')"
  unfolding members_reads_def
proof (intro allI impI)
  fix l f r acc
  assume a: "members_ok (Member w k w1 w2 t w') l"
    "2 * length (members_text (Member w k w1 w2 t w') @ CHR ''}'' # r) + 1 \<le> f"
  then obtain g where g: "f = Suc g" by (cases f) auto
  have "scan_value g l (tree_text t @ w' @ CHR ''}'' # r) = Ok (tree_value t) (w' @ CHR ''}'' # r)"
    using a by (intro tree_readsD [OF assms] number_end_space) (simp_all add: g)
  then show "scan_members f l acc (skip_ws (members_text (Member w k w1 w2 t w') @ CHR ''}'' # r)) =
      Ok (JDict (members_value (Member w k w1 w2 t w') acc)) r"
    using a by (simp add: g key_skip scan_key close_after json_space_def del: scan_members.simps)
qed

lemma reads_Members:
  assumes "tree_reads t" and "members_reads ms"
  shows "members_reads (Members w k w1 w2 t w' ms)"
  unfolding members_reads_def
proof (intro allI impI)
  fix l f r acc
  assume a: "members_ok (Members w k w1 w2 t w' ms) l"
    "2 * length (members_text (Members w k w1 w2 t w' ms) @ CHR ''}'' # r) + 1 \<le> f"
  then obtain g where g: "f = Suc g" by (cases f) auto
  let ?s = "w' @ CHR '','' # members_text ms @ CHR ''}'' # r"
  let ?acc = "AList.update (map part_char k) (tree_value t) acc"
  have "scan_value g l (tree_text t @ ?s) = Ok (tree_value t) ?s"
    using a by (intro tree_readsD [OF assms(1)] number_end_space) (simp_all add: g)
  moreover have "scan_members g l ?acc (skip_ws (members_text ms @ CHR ''}'' # r)) = Ok (JDict (members_value ms ?acc)) r"
    using a by (intro members_readsD [OF assms(2)]) (simp_all add: g)
  ultimately show "scan_members f l acc (skip_ws (members_text (Members w k w1 w2 t w' ms) @ CHR ''}'' # r)) =
      Ok (JDict (members_value (Members w k w1 w2 t w' ms) acc)) r"
    using a by (simp add: g key_skip scan_key comma_after del: scan_members.simps)
qed

lemma reads_leaves:
  "tree_reads (Const name)" "tree_reads (Number n)" "tree_reads (Quoted ps)" "tree_reads (EmptyArr w)" "tree_reads (EmptyObj w)"
proof -
  show "tree_reads (Const name)" by (rule tree_readsI) (simp add: scan_const del: scan_value.simps)
  show "tree_reads (Number n)" by (rule tree_readsI) (simp add: scan_num scan_value_number del: scan_value.simps)
  show "tree_reads (Quoted ps)" by (rule tree_readsI) (simp add: parts_text_def scan_parts)
  show "tree_reads (EmptyArr w)" "tree_reads (EmptyObj w)"
    by (rule tree_readsI; simp add: space_skip skip_ws_Cons json_space_def)+
qed

lemma reads_tree: "tree_reads t" "items_reads xs" "members_reads ms"
  by (induction t and xs and ms)
    (simp_all only: reads_leaves reads_Arr reads_Obj reads_Item reads_Items reads_Member reads_Members)

text \<open>json.loads returns the value of any tree, with white space around it.\<close>

lemma loads_tree:
  assumes "tree_ok t levels" and "space_ok w" and "space_ok w'"
  shows "py_loads levels (w @ tree_text t @ w') = Loaded (tree_value t)"
proof -
  have "number_end (w' @ [])" by (rule number_end_space [OF assms(3)]) simp
  then have "scan_value (2 * length (w @ tree_text t @ w') + 1) levels (tree_text t @ w') = Ok (tree_value t) w'"
    using assms(1) reads_tree(1) by (intro tree_readsD) simp_all
  moreover have "skip_ws w' = []" using space_skip [OF assms(3), of "[]"] by (simp add: skip_ws_def)
  ultimately show ?thesis using tree_skip [OF assms(1,2), of w'] by (simp add: py_loads_def del: scan_value.simps)
qed

section \<open>Trees in the progress stream\<close>

lemma obj_body_plain: "list_all plain_char t \<Longrightarrow> obj_body b \<Longrightarrow> obj_body (t @ b)"
  by (induction t) (simp_all add: body_char)

lemma digit_plain: "is_digit c \<Longrightarrow> plain_char c"
  by (auto simp: is_digit_def plain_char_def ord_def)

lemma hex_val_plain: "hex_val x \<noteq> None \<Longrightarrow> x \<noteq> CHR 0x22 \<and> x \<noteq> CHR 0x5C"
  by (auto simp: hex_val_def ord_def)

lemma str_rest_part: "part_ok p \<Longrightarrow> str_rest s \<Longrightarrow> str_rest (part_text p @ s)"
proof (cases p)
  case (Hex a b c d)
  assume s: "part_ok p" "str_rest s"
  then have "hex_val a \<noteq> None" "hex_val b \<noteq> None" "hex_val c \<noteq> None" "hex_val d \<noteq> None"
    by (auto simp: Hex hex4_def split: option.splits)
  then have "str_rest (a # b # c # d # s)"
    using hex_val_plain s(2) by (intro str_char) blast+
  then show ?thesis using str_escape by (simp add: Hex)
qed (auto intro: str_escape str_char)

lemma str_rest_parts: "list_all part_ok ps \<Longrightarrow> str_rest (concat (map part_text ps) @ [CHR 0x22])"
  by (induction ps) (simp_all add: str_end str_rest_part)

text \<open>Text that may stand in an object, before the rest of its body.\<close>

definition in_body :: "string \<Rightarrow> bool" where
  "in_body x \<longleftrightarrow> (\<forall>b. obj_body b \<longrightarrow> obj_body (x @ b))"

lemma in_body_append [simp]: "in_body x \<Longrightarrow> in_body y \<Longrightarrow> in_body (x @ y)"
  by (simp add: in_body_def)

lemma in_body_Cons [simp]: "plain_char c \<Longrightarrow> in_body y \<Longrightarrow> in_body (c # y)"
  by (simp add: in_body_def body_char)

lemma in_body_plain: "list_all plain_char t \<Longrightarrow> in_body t"
  by (simp add: in_body_def obj_body_plain)

lemma in_body_parts [simp]: "list_all part_ok ps \<Longrightarrow> in_body (parts_text ps)"
  using body_string [OF str_rest_parts] by (simp add: in_body_def parts_text_def)

lemma space_plain: "json_space c \<Longrightarrow> plain_char c"
  by (auto simp: json_space_def plain_char_def)

lemma in_body_space [simp]: "space_ok w \<Longrightarrow> in_body w"
  by (rule in_body_plain) (simp add: space_ok_def list_all_iff space_plain)

lemma in_body_nil [simp]: "in_body []"
  by (simp add: in_body_def)

lemma in_body_obj: "in_body x \<Longrightarrow> obj_body x"
  unfolding in_body_def using body_nil by fastforce

lemma in_body_digits [simp]: "digits_ok ds \<Longrightarrow> in_body ds"
  by (rule in_body_plain) (auto simp: digits_ok_def list_all_iff digit_plain)

lemma in_body_num [simp]:
  assumes "num_ok n"
  shows "in_body (num_text n)"
proof (cases n)
  case (Num neg ds fs e)
  have sign: "in_body s" if "s \<in> {[], ''+'', ''-''}" for s :: string
  proof -
    have "list_all plain_char s" using that by (elim insertE) (simp_all add: plain_char_def)
    then show ?thesis by (rule in_body_plain)
  qed
  have letter: "plain_char c" if "c \<in> {CHR ''.'', CHR ''e'', CHR ''E''}" for c
    using that by (auto simp: plain_char_def)
  have "in_body (case fs of None \<Rightarrow> [] | Some f \<Rightarrow> CHR ''.'' # f)"
    using assms letter by (auto simp: Num split: option.splits)
  moreover have "in_body (case e of None \<Rightarrow> [] | Some (x, s, es) \<Rightarrow> x # s @ es)"
  proof (cases e)
    case (Some y)
    obtain x s es where y: "e = Some (x, s, es)" using Some by (cases y) auto
    then have "x \<in> {CHR ''.'', CHR ''e'', CHR ''E''}" "s \<in> {[], ''+'', ''-''}" "digits_ok es"
      using assms by (auto simp: Num)
    then show ?thesis using letter sign by (simp add: y del: insert_iff)
  qed simp
  moreover have "in_body ds" using assms by (simp add: Num)
  ultimately show ?thesis using sign [of "if neg then ''-'' else []"] by (simp add: Num)
qed

lemma in_body_const: "name \<in> set (map fst constants) \<Longrightarrow> in_body name"
  by (rule in_body_plain) (auto simp: constants_def plain_char_def)

lemma in_body_braces: "in_body x \<Longrightarrow> in_body (CHR ''{'' # x @ ''}'')"
  using body_object [OF in_body_obj] by (simp add: in_body_def)

lemma plain_marks [simp]: "plain_char CHR '':''" "plain_char CHR '',''" "plain_char CHR ''[''" "plain_char CHR '']''"
  by (simp_all add: plain_char_def)

lemma in_body_tree:
  "tree_ok t l \<Longrightarrow> in_body (tree_text t)"
  "items_ok xs l \<Longrightarrow> in_body (items_text xs)"
  "members_ok ms l \<Longrightarrow> in_body (members_text ms)"
  by (induction t and xs and ms arbitrary: l and l and l)
    (auto simp del: append_Cons simp add: in_body_const in_body_braces)

lemma tree_obj_text:
  assumes "tree_ok t l" and "tree_value t = JDict d"
  shows "obj_text (tree_text t)"
proof -
  have braces: "in_body x \<Longrightarrow> obj_text (CHR ''{'' # x @ ''}'')" for x
    using in_body_obj by (auto simp: obj_text_def)
  show ?thesis
  proof (cases t)
    case (Const name)
    then show ?thesis using assms by (auto simp: constants_def)
  next
    case (Number n)
    then show ?thesis using assms by (cases n) (auto split: if_splits)
  qed (use assms in_body_tree(3) braces in auto)
qed

text \<open>C21. HandBrake's progress is read as it was written.  A stream consists of JSON objects, each printed in
  any of the ways the grammar allows (spread over lines, indented or not, numbers with any digits and
  exponents, strings with braces, quotes and escapes), each after log text without quotes or opening
  braces, followed by an unfinished tail without a closing brace; parse_progress_objects
  returns exactly the objects that were printed, in order, every number being the printed decimal
  correctly rounded.\<close>

theorem progress_stream_round_trip:
  assumes "\<forall>(noise, t, d)\<in>set ps. (\<forall>c\<in>set noise. plain_char c \<or> c = CHR ''}'') \<and> tree_ok t levels \<and> tree_value t = JDict d"
    and "CHR ''}'' \<notin> set rest"
  shows "parse_progress_objects (py_loads levels)
      (concat (map (\<lambda>(noise, t, d). noise @ tree_text t) ps) @ rest) = Inr (map (\<lambda>(noise, t, d). d) ps)"
proof -
  define qs where "qs = map (\<lambda>(noise, t, d). (noise, tree_text t)) ps"
  have cat: "map (\<lambda>(noise, t, d). noise @ tree_text t) ps = map (\<lambda>(noise, obj). noise @ obj) qs"
    by (simp add: qs_def split_def)
  have "lex_all lex_init (concat (map (\<lambda>(noise, obj). noise @ obj) qs)) = (map snd qs, lex_init)"
    using assms(1) tree_obj_text by (intro lex_noise_objects) (fastforce simp: qs_def)
  then have "object_texts (concat (map (\<lambda>(noise, obj). noise @ obj) qs) @ rest) = map snd qs"
    using lex_all_no_brace [OF assms(2), of lex_init]
    by (cases "lex_all lex_init rest") (simp add: object_texts_def lex_all_append)
  moreover have "decode_all (py_loads levels) (map snd qs) = Inr (map (\<lambda>(noise, t, d). d) ps)"
    using assms(1) unfolding qs_def
  proof (induction ps)
    case (Cons p ps)
    obtain noise t d where p: "p = (noise, t, d)" by (cases p)
    then have "py_loads levels ([] @ tree_text t @ []) = Loaded (tree_value t)" "tree_value t = JDict d"
      using Cons.prems loads_tree [of t levels "[]" "[]"] by (auto simp: space_ok_def)
    then show ?case using Cons p by simp
  qed simp
  ultimately show ?thesis unfolding cat by (simp add: parse_progress_objects_eq)
qed

text \<open>An excerpt of the captured output in tests/fixtures/json-output.txt, with backquotes for quotes, and
  its tree.\<close>

definition fixture_lines :: "string list" where
  "fixture_lines = map (map (\<lambda>c. if c = CHR 0x60 then CHR 0x22 else c))
     [''Progress: {'',
      ''    `State`: `WORKING`,'',
      ''    `Working`: {'',
      ''        `ETASeconds`: 0,'',
      ''        `Hours`: -1,'',
      ''        `Pass`: 1,'',
      ''        `PassCount`: 1,'',
      ''        `Progress`: 0.98000001907348633,'',
      ''        `Rate`: 0.0'',
      ''    }'',
      ''}'']"

definition indent :: "nat \<Rightarrow> string" where
  "indent n = CHR 0x0A # replicate n CHR '' ''"

primrec indented :: "nat \<Rightarrow> string \<times> tree \<Rightarrow> (string \<times> tree) list \<Rightarrow> members" where
  "indented n m [] = Member (indent n) (map Bare (fst m)) [] '' '' (snd m) (indent (n - 4))"
| "indented n m (m' # ms) = Members (indent n) (map Bare (fst m)) [] '' '' (snd m) [] (indented n m' ms)"

definition fixture_tree :: tree where
  "fixture_tree = Obj (indented 4 (''State'', Quoted (map Bare ''WORKING''))
     [(''Working'', Obj (indented 8 (''ETASeconds'', Number (Num False ''0'' None None))
        [(''Hours'', Number (Num True ''1'' None None)),
         (''Pass'', Number (Num False ''1'' None None)),
         (''PassCount'', Number (Num False ''1'' None None)),
         (''Progress'', Number (Num False ''0'' (Some ''98000001907348633'') None)),
         (''Rate'', Number (Num False ''0'' (Some ''0'') None))]))])"

definition fixture_object :: dict where
  "fixture_object = [(''State'', JStr ''WORKING''), (''Working'', JDict [(''ETASeconds'', JInt 0),
     (''Hours'', JInt (- 1)), (''Pass'', JInt 1), (''PassCount'', JInt 1),
     (''Progress'', JFloat (Fin (2055209 / 2097152))), (''Rate'', JFloat (Fin 0))])]"

lemma fixture_text: "py_join [CHR 0x0A] fixture_lines = ''Progress: '' @ tree_text fixture_tree"
  by code_simp

lemma fixture_ok: "tree_ok fixture_tree 2"
  by code_simp

lemma fixture_value: "tree_value fixture_tree = JDict fixture_object"
  by code_simp

theorem progress_stream_round_trip_witness:
  "parse_progress_objects (py_loads 2) (py_join [CHR 0x0A] fixture_lines @ ''Version: {'') = Inr [fixture_object]"
proof -
  have "\<forall>c\<in>set ''Progress: ''. plain_char c \<or> c = CHR ''}''" by (simp add: plain_char_def)
  then show ?thesis
    using progress_stream_round_trip [of "[(''Progress: '', fixture_tree, fixture_object)]" 2 "''Version: {''"]
      fixture_ok fixture_value by (simp add: fixture_text)
qed

section \<open>An output that json.loads reads without raising\<close>

definition noisy_child :: child where
  "noisy_child = demo_child\<lparr>items := map Line [''{'', ''x: '', ''{}}''], exit_code := 3, cancel_set := False\<rparr>"

theorem run_encode_reporting_is_harmless_witness:
  "encode_outcome (run_encode (py_loads 100) (\<lambda>_. Some ValueError) True noisy_child) = Inl (HandBrakeError (ExitCode 3))"
proof -
  let ?ls = "[''{'', ''x: '', ''{}}'']"
  have "\<forall>seg\<in>set (sublists ?ls). \<forall>t\<in>set (object_texts (concat seg)).
      (case py_loads 100 t of LoadsRaised e \<Rightarrow> False | _ \<Rightarrow> True)"
    by code_simp
  then have d: "decodes_output (py_loads 100) ?ls"
    by (fastforce simp del: sublists.simps simp: decodes_output_def set_sublists_eq)
  have "benign (\<lambda>_. Some ValueError)" "spawn_error noisy_child = None" "items noisy_child = map Line ?ls"
    by (simp_all add: benign_def noisy_child_def demo_child_def)
  note w = run_encode_reporting_is_harmless [OF d this, of True, THEN conjunct2]
  have c: "ends_in_time noisy_child" "exit_code noisy_child = 3" "\<not> cancel_set noisy_child" "stderr_text noisy_child = []"
    "py_strip [] = []"
    by (simp_all add: noisy_child_def demo_child_def py_strip_def py_rstrip_def py_lstrip_def)
  show ?thesis using w c by simp blast
qed

end
