(* ===== verification/Files.thy ===== *)
theory Files
  imports PosixPath Errors "HOL-Library.AList"
begin

text \<open>
  The file system calls the encode operation makes: a name space of absolute paths whose entries
  are regular files (by inode), symbolic links and directories, the contents of the inodes, and
  the service's open descriptors.  An inode is in use while a name or a descriptor refers to it.
  Creating, removing and renaming work on the name itself, in the directory the path text gives: the
  operation calls them on names beside a resolved source, whose directories are not links.  os.stat
  walks the path, through links in any of its components.
  The interface the operation relies on is a locale, interpreted on these calls.
\<close>

datatype entry = EFile nat | ELink string | EDir nat

record fs =
  names :: "(string \<times> entry) list"
  contents :: "(nat \<times> string) list"
  fds :: "(int \<times> nat) list"

definition inodes_in_use :: "fs \<Rightarrow> nat list" where
  "inodes_in_use s =
     concat (map (\<lambda>(_, e). case e of EFile i \<Rightarrow> [i] | EDir i \<Rightarrow> [i] | ELink _ \<Rightarrow> []) (names s)) @
     map snd (fds s)"

definition fresh_inode :: "fs \<Rightarrow> nat" where
  "fresh_inode s = Suc (fold max (inodes_in_use s) 0)"

definition fresh_fd :: "fs \<Rightarrow> int" where
  "fresh_fd s = fold max (map fst (fds s)) 2 + 1"

definition entry_at :: "fs \<Rightarrow> string \<Rightarrow> entry option" where
  "entry_at s path = map_of (names s) path"

text \<open>os.path.lexists\<close>

definition lexists :: "fs \<Rightarrow> string \<Rightarrow> bool" where
  "lexists s path \<longleftrightarrow> entry_at s path \<noteq> None"

text \<open>os.open with O_CREAT, O_EXCL, O_WRONLY and O_NOFOLLOW: it fails when the name exists in any
  form, a dangling symbolic link included.\<close>

definition open_excl :: "string \<Rightarrow> fs \<Rightarrow> (int \<times> fs) option" where
  "open_excl path s =
     (if lexists s path then None
      else (let i = fresh_inode s; fd = fresh_fd s in
        Some (fd, s\<lparr>names := AList.update path (EFile i) (names s),
                    contents := AList.update i [] (contents s),
                    fds := AList.update fd i (fds s)\<rparr>)))"

definition close_fd :: "int \<Rightarrow> fs \<Rightarrow> fs" where
  "close_fd fd s = s\<lparr>fds := AList.delete fd (fds s)\<rparr>"

text \<open>os.fstat: the inode behind a descriptor.\<close>

definition fstat_ino :: "fs \<Rightarrow> int \<Rightarrow> nat option" where
  "fstat_ino s fd = map_of (fds s) fd"

text \<open>Lookup in the kernel: the walk from a directory along the remaining names, through the links it
  meets (the kernel gives up after forty); the result is where it arrives, which exists and is not
  a link.  Absolute paths are lists of names below the root.\<close>

definition path_text :: "string list \<Rightarrow> string" where
  "path_text ws = slash # path_join ws"

function walk_path :: "fs \<Rightarrow> nat \<Rightarrow> string list \<Rightarrow> string list \<Rightarrow> string list option" where
  "walk_path s n cur [] = Some cur"
| "walk_path s n cur (name # rest) =
     (if name = [] \<or> name = ''.'' then walk_path s n cur rest
      else if name = ''..'' then walk_path s n (butlast cur) rest
      else (case entry_at s (path_text (cur @ [name])) of
          None \<Rightarrow> None
        | Some (EDir _) \<Rightarrow> walk_path s n (cur @ [name]) rest
        | Some (EFile _) \<Rightarrow> if rest = [] then Some (cur @ [name]) else None
        | Some (ELink t) \<Rightarrow>
            (case n of
               0 \<Rightarrow> None
             | Suc m \<Rightarrow> walk_path s m (if is_abs t then [] else cur) (path_split t @ rest))))"
  by pat_completeness auto
termination by (relation "measures [\<lambda>(s, n, cur, rest). n, \<lambda>(s, n, cur, rest). length rest]") auto

declare walk_path.simps(2) [simp del]

definition reaches :: "fs \<Rightarrow> string \<Rightarrow> string list option" where
  "reaches s path = walk_path s 40 [] (path_split path)"

text \<open>os.stat: the inode of the file or directory at which the walk arrives.  A relative path would be
  looked up from the working directory; the operation has none, since the staging path stands
  beside a resolved source.\<close>

definition stat_ino :: "fs \<Rightarrow> string \<Rightarrow> nat option" where
  "stat_ino s path =
     (if is_abs path then
        (case reaches s path of
           None \<Rightarrow> None
         | Some loc \<Rightarrow>
             (case entry_at s (path_text loc) of
                Some (EFile i) \<Rightarrow> Some i
              | Some (EDir i) \<Rightarrow> Some i
              | _ \<Rightarrow> None))
      else None)"

text \<open>os.remove and os.unlink: the name goes, a symbolic link is not followed, a directory is
  refused.\<close>

definition remove_name :: "string \<Rightarrow> fs \<Rightarrow> fs option" where
  "remove_name path s =
     (case entry_at s path of
        None \<Rightarrow> None
      | Some (EDir _) \<Rightarrow> None
      | Some _ \<Rightarrow> Some (s\<lparr>names := AList.delete path (names s)\<rparr>))"

text \<open>os.replace: rename(2).  Whatever the destination names is replaced, a symbolic link itself
  rather than its target; a directory is not replaced by a file.  When both names are links to
  the same file the call succeeds and does nothing, so that both names stay.\<close>

definition same_file :: "entry option \<Rightarrow> entry option \<Rightarrow> bool" where
  "same_file a b \<longleftrightarrow> a = b \<and> (case a of Some (EFile i) \<Rightarrow> True | _ \<Rightarrow> False)"

lemma same_file_iff: "same_file a b \<longleftrightarrow> (\<exists>i. a = Some (EFile i) \<and> b = Some (EFile i))"
  by (auto simp: same_file_def split: option.splits entry.splits)

definition replace_name :: "string \<Rightarrow> string \<Rightarrow> fs \<Rightarrow> fs option" where
  "replace_name src dst s =
     (case (entry_at s src, entry_at s dst) of
        (None, _) \<Rightarrow> None
      | (Some (EDir _), _) \<Rightarrow> None
      | (Some e, Some (EDir _)) \<Rightarrow> None
      | (Some e, d) \<Rightarrow>
          if same_file (Some e) d then Some s
          else Some (s\<lparr>names := AList.update dst e (AList.delete src (names s))\<rparr>))"

definition write_inode :: "nat \<Rightarrow> string \<Rightarrow> fs \<Rightarrow> fs" where
  "write_inode i body s = s\<lparr>contents := AList.update i body (contents s)\<rparr>"

definition content_of :: "fs \<Rightarrow> nat \<Rightarrow> string option" where
  "content_of s i = map_of (contents s) i"

section \<open>The interface\<close>

text \<open>What a client that claims a name, lets others work and then publishes or withdraws the name
  relies on.\<close>

locale claim_files =
  fixes entry :: "'s \<Rightarrow> string \<Rightarrow> entry option"
    and desc :: "'s \<Rightarrow> int \<Rightarrow> nat option"
    and claim :: "string \<Rightarrow> 's \<Rightarrow> (int \<times> 's) option"
    and close :: "int \<Rightarrow> 's \<Rightarrow> 's"
    and remove :: "string \<Rightarrow> 's \<Rightarrow> 's option"
    and publish :: "string \<Rightarrow> string \<Rightarrow> 's \<Rightarrow> 's option"
  assumes claim_free: "claim p s = Some (d, s') \<Longrightarrow> entry s p = None \<and> desc s d = None"
    and claim_entry: "claim p s = Some (d, s') \<Longrightarrow>
      \<exists>i. (\<forall>q. entry s q \<noteq> Some (EFile i)) \<and> (\<forall>c. desc s c \<noteq> Some i) \<and>
          entry s' = (entry s)(p \<mapsto> EFile i) \<and> desc s' = (desc s)(d \<mapsto> i)"
    and close_law: "entry (close d s) = entry s" "desc (close d s) = (desc s)(d := None)"
    and remove_law: "remove p s = Some s' \<Longrightarrow> entry s' = (entry s)(p := None) \<and> desc s' = desc s"
    and remove_ok: "entry s p = Some (EFile i) \<or> entry s p = Some (ELink t) \<Longrightarrow> remove p s \<noteq> None"
    and publish_law: "publish p q s = Some s' \<Longrightarrow>
      (\<exists>e. entry s p = Some e \<and> (\<forall>i. e \<noteq> EDir i) \<and>
         entry s' = (if same_file (entry s p) (entry s q) then entry s else (entry s)(p := None, q \<mapsto> e))) \<and>
      desc s' = desc s"
begin

text \<open>A claim that is closed and withdrawn leaves the names and descriptors as they were.\<close>

lemma claim_close_remove:
  assumes "claim p s = Some (d, s1)" and "remove p (close d s1) = Some s2"
  shows "entry s2 = entry s \<and> desc s2 = desc s"
  using claim_free [OF assms(1)] claim_entry [OF assms(1)] remove_law [OF assms(2)] close_law
  by (auto simp: fun_eq_iff)

text \<open>A fresh claim can always be withdrawn.\<close>

lemma claim_removable:
  assumes "claim p s = Some (d, s1)"
  shows "remove p (close d s1) \<noteq> None"
proof -
  obtain i where "entry (close d s1) p = Some (EFile i)"
    using claim_entry [OF assms] close_law(1) [of d s1] by auto
  then show ?thesis using remove_ok by blast
qed

text \<open>Publishing binds the output name to the entry and touches no other name; the old name goes unless
  both already were links to one file.\<close>

lemma publish_moves:
  assumes "publish p q s = Some s'" and "p \<noteq> q"
  shows "entry s' q = entry s p \<and> entry s' q \<noteq> None \<and>
    entry s' p = (if same_file (entry s p) (entry s q) then entry s p else None) \<and>
    (\<forall>r. r \<noteq> p \<and> r \<noteq> q \<longrightarrow> entry s' r = entry s r)"
proof -
  obtain e where e: "entry s p = Some e"
    "entry s' = (if same_file (entry s p) (entry s q) then entry s else (entry s)(p := None, q \<mapsto> e))"
    using publish_law [OF assms(1)] by blast
  show ?thesis
  proof (cases "same_file (entry s p) (entry s q)")
    case True
    then show ?thesis using e by (auto simp: same_file_iff)
  qed (use e assms(2) in simp)
qed

end

lemma fold_max_ge: "x \<in> set xs \<Longrightarrow> x \<le> fold max xs (b :: 'a :: linorder)" "b \<le> fold max xs b"
proof (induction xs arbitrary: b)
  case (Cons y ys)
  { case 1 then show ?case using Cons.IH by (auto intro: order_trans [OF max.cobounded1]) }
  { case 2 show ?case using Cons.IH(2) [of "max y b"] by (auto intro: order_trans [OF max.cobounded2]) }
qed auto

lemma fresh_inode_unused: "i \<in> set (inodes_in_use s) \<Longrightarrow> i < fresh_inode s"
  using fold_max_ge(1) [of i "inodes_in_use s" 0] by (simp add: fresh_inode_def)

lemma fresh_fd_unused: "map_of (fds s) (fresh_fd s) = None"
proof (rule ccontr)
  assume "map_of (fds s) (fresh_fd s) \<noteq> None"
  then have "fresh_fd s \<in> set (map fst (fds s))" by (auto simp: map_of_eq_None_iff)
  then show False using fold_max_ge(1) [of "fresh_fd s" "map fst (fds s)" 2]
    by (simp add: fresh_fd_def)
qed

lemma inode_named: "map_of (names s) q = Some (EFile i) \<Longrightarrow> i \<in> set (inodes_in_use s)"
  by (force simp: inodes_in_use_def dest: map_of_SomeD)

lemma inode_open: "map_of (fds s) c = Some i \<Longrightarrow> i \<in> set (inodes_in_use s)"
  by (force simp: inodes_in_use_def dest: map_of_SomeD)

lemma replace_name_Some:
  assumes "replace_name p q s = Some s'"
  obtains e where "entry_at s p = Some e" and "\<forall>i. e \<noteq> EDir i" and "fds s' = fds s" and "contents s' = contents s"
    and "entry_at s' = (if same_file (entry_at s p) (entry_at s q) then entry_at s else (entry_at s)(p := None, q \<mapsto> e))"
proof -
  obtain e where e: "entry_at s p = Some e" "\<forall>i. e \<noteq> EDir i"
    using assms by (auto simp: replace_name_def split: option.splits entry.splits)
  have "s' = (if same_file (Some e) (entry_at s q) then s
      else s\<lparr>names := AList.update q e (AList.delete p (names s))\<rparr>)"
    using assms e by (cases e; cases "entry_at s q")
      (auto simp: replace_name_def split: entry.splits if_splits)
  then show thesis
    using that e by (auto simp: entry_at_def fun_eq_iff)
qed

interpretation fs_claim: claim_files entry_at fstat_ino open_excl close_fd remove_name replace_name
proof
  fix p s d s' assume o: "open_excl p s = Some (d, s')"
  have e: "entry_at s' = (entry_at s)(p \<mapsto> EFile (fresh_inode s))" "fstat_ino s' = (fstat_ino s)(d \<mapsto> fresh_inode s)"
    "entry_at s p = None" "d = fresh_fd s"
    using o by (auto simp: open_excl_def lexists_def Let_def entry_at_def fstat_ino_def fun_eq_iff split: if_splits)
  then show "entry_at s p = None \<and> fstat_ino s d = None" by (simp add: fstat_ino_def fresh_fd_unused)
  have "entry_at s q \<noteq> Some (EFile (fresh_inode s))" "fstat_ino s c \<noteq> Some (fresh_inode s)" for q c
    using fresh_inode_unused [of "fresh_inode s" s] inode_named [of s q] inode_open [of s c]
    by (auto simp: entry_at_def fstat_ino_def)
  then show "\<exists>i. (\<forall>q. entry_at s q \<noteq> Some (EFile i)) \<and> (\<forall>c. fstat_ino s c \<noteq> Some i) \<and>
      entry_at s' = (entry_at s)(p \<mapsto> EFile i) \<and> fstat_ino s' = (fstat_ino s)(d \<mapsto> i)"
    using e by blast
next
  fix p q s s' assume "replace_name p q s = Some s'"
  then show "(\<exists>e. entry_at s p = Some e \<and> (\<forall>i. e \<noteq> EDir i) \<and>
      entry_at s' = (if same_file (entry_at s p) (entry_at s q) then entry_at s else (entry_at s)(p := None, q \<mapsto> e))) \<and>
      fstat_ino s' = fstat_ino s"
    by (elim replace_name_Some) (auto simp: fstat_ino_def fun_eq_iff)
qed (auto simp: close_fd_def remove_name_def entry_at_def fstat_ino_def fun_eq_iff
    split: option.splits entry.splits)

end
