(* ===== verification/Realpath.thy ===== *)
theory Realpath
  imports Paths Files
begin

text \<open>
  What the answers of realpath and isfile are on a file system with symbolic links.  The names of
  the file system form a tree: whatever has a name has a directory above it.  Resolution is os.path.realpath of the service's Python 3.12, in
  its default non-strict mode, with the explicit stack of the recursion; the lookup is the walk that
  open and stat make in the kernel (Files).  The answer for a relative path
  depends on the working directory and stays a parameter.
\<close>

section \<open>Lookup\<close>

definition link_target :: "fs \<Rightarrow> string list \<Rightarrow> string option" where
  "link_target s ws = (case entry_at s (path_text ws) of Some (ELink t) \<Rightarrow> Some t | _ \<Rightarrow> None)"

text \<open>os.path.isfile, on a path the resolution has made absolute; the root is a directory.\<close>

definition is_file :: "fs \<Rightarrow> string \<Rightarrow> bool" where
  "is_file s path \<longleftrightarrow> is_abs path \<and>
     (case reaches s path of
        None \<Rightarrow> False
      | Some loc \<Rightarrow> loc \<noteq> [] \<and> (case entry_at s (path_text loc) of Some (EFile _) \<Rightarrow> True | _ \<Rightarrow> False))"

section \<open>realpath\<close>

text \<open>A stack frame is the link being resolved and the names that follow it.  A link met again while it
  is being resolved ends the resolution: the rest of the path is appended as it stands, at every level,
  and the flag says so.  lstat raises ValueError for an embedded NUL byte; links nested deeper than the
  interpreter's recursion limit allows raise RecursionError.\<close>

abbreviation RecursionError :: exc where
  "RecursionError \<equiv> OtherException ''RecursionError''"

type_synonym frame = "string list \<times> string list"

definition unresolved :: "frame list \<Rightarrow> string \<Rightarrow> string" where
  "unresolved frames p = foldl (\<lambda>p (_, rest). os_path_join p (path_join rest)) p frames"

function joinrealpath ::
  "fs \<Rightarrow> nat \<Rightarrow> string list \<Rightarrow> string list \<Rightarrow> (string \<times> string list option) list \<Rightarrow> frame list \<Rightarrow>
     (string \<times> bool) result" where
  "joinrealpath s levels path [] seen [] = Inr (path_text path, True)"
| "joinrealpath s levels path [] seen ((link, rest) # frames) =
     joinrealpath s levels path rest (AList.update (path_text link) (Some path) seen) frames"
| "joinrealpath s levels path (name # rest) seen frames =
     (if name = [] \<or> name = ''.'' then joinrealpath s levels path rest seen frames
      else if name = ''..'' then joinrealpath s levels (butlast path) rest seen frames
      else if CHR 0x00 \<in> set name then Inl ValueError
      else (case link_target s (path @ [name]) of
          None \<Rightarrow> joinrealpath s levels (path @ [name]) rest seen frames
        | Some t \<Rightarrow>
            (case map_of seen (path_text (path @ [name])) of
               Some (Some p) \<Rightarrow> joinrealpath s levels p rest seen frames
             | Some None \<Rightarrow>
                 Inr (unresolved frames (os_path_join (path_text (path @ [name])) (path_join rest)), False)
             | None \<Rightarrow>
                 if levels \<le> length frames then Inl RecursionError
                 else joinrealpath s levels (if is_abs t then [] else path) (path_split t)
                   (AList.update (path_text (path @ [name])) None seen) ((path @ [name], rest) # frames))))"
  by pat_completeness auto

definition unseen :: "fs \<Rightarrow> (string \<times> string list option) list \<Rightarrow> string set" where
  "unseen s seen = fst ` set (names s) - fst ` set seen"

lemma card_unseen_update: "card (unseen s (AList.update k v seen)) \<le> card (unseen s seen)"
  by (intro card_mono) (auto simp: unseen_def dom_update)

lemma card_unseen_new:
  assumes "map_of seen k = None" and "map_of (names s) k \<noteq> None"
  shows "card (unseen s (AList.update k v seen)) < card (unseen s seen)"
proof (intro psubset_card_mono)
  have "k \<in> fst ` set (names s)" "k \<notin> fst ` set seen"
    using assms by (auto simp: map_of_eq_None_iff)
  then show "unseen s (AList.update k v seen) \<subset> unseen s seen" by (auto simp: unseen_def dom_update)
qed (simp add: unseen_def)

lemma link_target_Some: "link_target s ws = Some t \<longleftrightarrow> map_of (names s) (path_text ws) = Some (ELink t)"
  by (auto simp: link_target_def entry_at_def split: option.splits entry.splits)

termination joinrealpath
proof (relation "measures [\<lambda>(s, levels, path, rest, seen, frames). card (unseen s seen),
    \<lambda>(s, levels, path, rest, seen, frames). length rest + sum_list (map (\<lambda>(link, r). Suc (length r)) frames)]")
  show "((s, levels, path, rest, AList.update (path_text link) (Some path) seen, frames), s, levels, path, [], seen, (link, rest) # frames)
      \<in> measures [\<lambda>(s, levels, path, rest, seen, frames). card (unseen s seen),
        \<lambda>(s, levels, path, rest, seen, frames). length rest + sum_list (map (\<lambda>(link, r). Suc (length r)) frames)]"
    for s levels path rest link seen and frames :: "frame list"
    using card_unseen_update [of s "path_text link" "Some path" seen] by auto
qed (auto simp: link_target_Some card_unseen_new)

declare joinrealpath.simps(3) [simp del]

text \<open>The answer is made absolute and normalised, which works on the text alone.\<close>

definition realpath_abs :: "fs \<Rightarrow> nat \<Rightarrow> string \<Rightarrow> string result" where
  "realpath_abs s levels path =
     bind_res (joinrealpath s levels [] (path_split path) [] []) (\<lambda>(p, ok). Inr (normpath p))"

definition fs_view :: "nat \<Rightarrow> (string \<Rightarrow> string result) \<Rightarrow> fs \<Rightarrow> os_view" where
  "fs_view levels rel s =
     \<lparr>realpath = (\<lambda>p. if is_abs p then realpath_abs s levels p else rel p), isfile = is_file s\<rparr>"

definition loop_free :: "fs \<Rightarrow> nat \<Rightarrow> string \<Rightarrow> bool" where
  "loop_free s levels path \<longleftrightarrow> (case joinrealpath s levels [] (path_split path) [] [] of
     Inr (_, ok) \<Rightarrow> ok | Inl _ \<Rightarrow> False)"

section \<open>Resolution follows the walk\<close>

text \<open>Where the walk from one point arrives, the walk from the other arrives too, whatever follows.\<close>

definition leads :: "fs \<Rightarrow> string list \<times> string list \<Rightarrow> string list \<times> string list \<Rightarrow> bool" where
  "leads s a b \<longleftrightarrow> (\<forall>n ws q. walk_path s n (fst a) (snd a @ ws) = Some q \<longrightarrow>
     walk_path s n (fst b) (snd b @ ws) = Some q)"

lemma walk_path_more: "walk_path s n cur rest = Some q \<Longrightarrow> walk_path s (Suc n) cur rest = Some q"
proof (induction s n cur rest rule: walk_path.induct)
  case (2 s n cur name rest)
  show ?case
  proof (cases "name = [] \<or> name = ''.'' \<or> name = ''..''")
    case True
    then show ?thesis using 2 by (auto simp: walk_path.simps(2))
  next
    case False
    then obtain e where e: "entry_at s (path_text (cur @ [name])) = Some e"
      using 2 by (auto simp: walk_path.simps(2) split: option.splits)
    show ?thesis
    proof (cases e)
      case (ELink t)
      then obtain m where "n = Suc m" "walk_path s m (if is_abs t then [] else cur) (path_split t @ rest) = Some q"
        using 2 False e by (cases n) (auto simp: walk_path.simps(2))
      moreover from this have "walk_path s (Suc m) (if is_abs t then [] else cur) (path_split t @ rest) = Some q"
        using 2 False e ELink by simp
      ultimately show ?thesis using False e ELink by (simp add: walk_path.simps(2))
    qed (use 2 False e in \<open>auto simp: walk_path.simps(2) split: if_splits\<close>)
  qed
qed simp

lemma leads_refl [simp]: "leads s a a"
  by (simp add: leads_def)

lemma leads_trans: "leads s a b \<Longrightarrow> leads s b c \<Longrightarrow> leads s a c"
  by (simp add: leads_def)

lemma leads_more: "leads s (a, r) (b, r') \<Longrightarrow> leads s (a, r @ ws) (b, r' @ ws)"
  unfolding leads_def by simp

lemma leads_skip: "name = [] \<or> name = ''.'' \<Longrightarrow> leads s (cur, name # rest) (cur, rest)"
  by (auto simp: leads_def walk_path.simps(2))

lemma leads_up: "leads s (cur, ''..'' # rest) (butlast cur, rest)"
  by (simp add: leads_def walk_path.simps(2))

lemma leads_into:
  assumes "name \<notin> {[], ''.'', ''..''}" and "link_target s (cur @ [name]) = None"
  shows "leads s (cur, name # rest) (cur @ [name], rest)"
  using assms by (auto simp: leads_def walk_path.simps(2) link_target_def split: option.splits entry.splits if_splits)

lemma leads_link:
  assumes "name \<notin> {[], ''.'', ''..''}" and "link_target s (cur @ [name]) = Some t"
  shows "leads s (cur, [name]) (if is_abs t then [] else cur, path_split t)"
  using assms walk_path_more
  by (auto simp: leads_def walk_path.simps(2) link_target_def split: option.splits entry.splits nat.splits)

text \<open>The stack, as a chain of such steps back to where the resolution started.\<close>

fun chained :: "fs \<Rightarrow> string list \<times> string list \<Rightarrow> string list \<Rightarrow> string list \<Rightarrow> frame list \<Rightarrow> bool" where
  "chained s start path rest [] = leads s start (path, rest)"
| "chained s start path rest ((link, r) # frames) \<longleftrightarrow>
     leads s (butlast link, [last link]) (path, rest) \<and> chained s start (butlast link) (last link # r) frames"

lemma chained_step: "chained s start path rest frames \<Longrightarrow> leads s (path, rest) (path', rest') \<Longrightarrow>
    chained s start path' rest' frames"
  by (cases frames) (auto intro: leads_trans)

lemma chained_pop:
  assumes "chained s start path [] ((link, r) # frames)"
  shows "chained s start path r frames"
proof -
  have "leads s (butlast link, [last link] @ r) (path, [] @ r)"
    using assms by (intro leads_more) simp
  then show ?thesis using assms by (auto intro: chained_step)
qed

definition resolved :: "fs \<Rightarrow> string list \<Rightarrow> bool" where
  "resolved s ws \<longleftrightarrow> (\<forall>w\<in>set ws. plain_word w \<and> w \<noteq> ''..'') \<and>
     (\<forall>p. prefix p ws \<longrightarrow> p \<noteq> [] \<longrightarrow> link_target s p = None)"

definition cached_ok :: "fs \<Rightarrow> (string \<times> string list option) list \<Rightarrow> bool" where
  "cached_ok s seen \<longleftrightarrow> (\<forall>link p. link \<noteq> [] \<longrightarrow> (\<forall>w\<in>set link. plain_word w) \<longrightarrow>
     map_of seen (path_text link) = Some (Some p) \<longrightarrow> resolved s p \<and> leads s (butlast link, [last link]) (p, []))"

definition frames_ok :: "frame list \<Rightarrow> bool" where
  "frames_ok frames \<longleftrightarrow> (\<forall>(link, r)\<in>set frames. (\<forall>w\<in>set link. plain_word w) \<and> (\<forall>w\<in>set r. slash \<notin> set w))"

lemma path_text_eq: "\<forall>w\<in>set a. plain_word w \<Longrightarrow> \<forall>w\<in>set b. plain_word w \<Longrightarrow> path_text a = path_text b \<Longrightarrow> a = b"
  by (metis path_text_def path_words_join(2))

lemma resolved_Nil [simp]: "resolved s []"
  by (simp add: resolved_def)

lemma resolved_butlast: "resolved s ws \<Longrightarrow> resolved s (butlast ws)"
  by (auto simp: resolved_def dest: in_set_butlastD prefix_order.trans [OF _ prefixeq_butlast])

lemma resolved_snoc:
  "resolved s ws \<Longrightarrow> plain_word w \<Longrightarrow> w \<noteq> ''..'' \<Longrightarrow> link_target s (ws @ [w]) = None \<Longrightarrow> resolved s (ws @ [w])"
  by (auto simp: resolved_def prefix_snoc)

lemma cached_ok_None: "cached_ok s seen \<Longrightarrow> cached_ok s (AList.update k None seen)"
  by (auto simp: cached_ok_def update_conv')

lemma cached_ok_Some:
  assumes "cached_ok s seen" and "resolved s p" and "leads s (butlast link, [last link]) (p, [])"
    and "\<forall>w\<in>set link. plain_word w"
  shows "cached_ok s (AList.update (path_text link) (Some p) seen)"
  using assms path_text_eq [OF _ assms(4)] unfolding cached_ok_def update_conv' by (auto split: if_splits) 

lemma joinrealpath_follows:
  assumes "joinrealpath s levels path rest seen frames = Inr (res, True)"
    and "resolved s path" and "\<forall>w\<in>set rest. slash \<notin> set w" and "cached_ok s seen" and "frames_ok frames"
    and "chained s start path rest frames"
  shows "\<exists>q. res = path_text q \<and> resolved s q \<and> leads s start (q, [])"
  using assms
proof (induction s levels path rest seen frames rule: joinrealpath.induct)
  case (1 s levels path seen)
  then show ?case by auto
next
  case (2 s levels path seen link rest frames)
  have "chained s start path rest frames" by (rule chained_pop [OF 2(7)])
  moreover have "cached_ok s (AList.update (path_text link) (Some path) seen)"
    using 2 by (intro cached_ok_Some) (auto simp: frames_ok_def)
  ultimately show ?case using 2 by (intro 2(1)) (auto simp: frames_ok_def)
next
  case (3 s levels path name rest seen frames)
  consider (skip) "name = [] \<or> name = ''.''" | (up) "name = ''..''" | (name) "name \<notin> {[], ''.'', ''..''}" by auto
  then show ?case
  proof cases
    case skip
    then have j: "joinrealpath s levels path rest seen frames = Inr (res, True)"
      using 3(6) by (auto simp: joinrealpath.simps(3))
    show ?thesis
      by (rule 3(1) [OF skip j 3(7) _ 3(9,10) chained_step [OF 3(11) leads_skip [OF skip]]]) (use 3(8) in simp)
  next
    case up
    then have j: "joinrealpath s levels (butlast path) rest seen frames = Inr (res, True)"
      using 3(6) by (simp add: joinrealpath.simps(3))
    show ?thesis
      by (rule 3(2) [OF _ up j resolved_butlast [OF 3(7)] _ 3(9,10) chained_step [OF 3(11) [unfolded up] leads_up]])
        (use up 3(8) in simp_all)
  next
    case name
    then have w: "plain_word name" "name \<noteq> ''..''" using 3(8) by (simp_all add: plain_word_def)
    have nul: "CHR 0x00 \<notin> set name" using 3(6) name by (auto simp: joinrealpath.simps(3))
    show ?thesis
    proof (cases "link_target s (path @ [name])")
      case None
      then have j: "joinrealpath s levels (path @ [name]) rest seen frames = Inr (res, True)"
        using 3(6) name nul by (simp add: joinrealpath.simps(3))
      show ?thesis
        by (rule 3(3) [OF _ _ nul None j resolved_snoc [OF 3(7) w None] _ 3(9,10)
              chained_step [OF 3(11) leads_into [OF name None]]])
          (use name 3(8) in simp_all)
    next
      case (Some t)
      have new: "\<forall>w\<in>set (path @ [name]). plain_word w" using 3(7) w by (auto simp: resolved_def)
      show ?thesis
      proof (cases "map_of seen (path_text (path @ [name]))")
        case None
        have ch: "chained s start (if is_abs t then [] else path) (path_split t) ((path @ [name], rest) # frames)"
          using leads_link [OF name Some] 3(11) by simp
        have j: "joinrealpath s levels (if is_abs t then [] else path) (path_split t)
            (AList.update (path_text (path @ [name])) None seen) ((path @ [name], rest) # frames) = Inr (res, True)"
          and levels: "\<not> levels \<le> length frames"
          using 3(6) name nul Some None by (auto simp: joinrealpath.simps(3) split: if_splits)
        have fr: "frames_ok ((path @ [name], rest) # frames)" using new 3(8,10) by (simp add: frames_ok_def)
        show ?thesis
          by (rule 3(4) [OF _ _ nul Some None levels j _ _ cached_ok_None [OF 3(9)] fr ch])
            (use name 3(7) py_split_sep_free in auto)
      next
        case (Some c)
        then obtain p where p: "c = Some p" using 3(6) name nul \<open>link_target s (path @ [name]) = Some t\<close>
          by (cases c) (auto simp: joinrealpath.simps(3))
        then have c: "resolved s p" "leads s (path, [name]) (p, [])"
          using 3(9) [unfolded cached_ok_def, rule_format, of "path @ [name]" p] Some new by simp_all
        have "leads s (path, name # rest) (p, rest)" using leads_more [OF c(2), of rest] by simp
        then have ch: "chained s start p rest frames" by (rule chained_step [OF 3(11)])
        have j: "joinrealpath s levels p rest seen frames = Inr (res, True)"
          using 3(6) name nul Some p \<open>link_target s (path @ [name]) = Some t\<close> by (simp add: joinrealpath.simps(3))
        show ?thesis
          by (rule 3(5) [OF _ _ nul \<open>link_target s (path @ [name]) = Some t\<close> Some p j c(1) _ 3(9,10) ch])
            (use name 3(8) in auto)
      qed
    qed
  qed
qed

text \<open>A path without links is its own location.\<close>

lemma walk_resolved:
  "resolved s (cur @ ws) \<Longrightarrow> walk_path s n cur ws = Some q \<Longrightarrow> q = cur @ ws"
proof (induction ws arbitrary: cur)
  case (Cons w ws)
  have w: "w \<noteq> []" "w \<noteq> ''.''" "w \<noteq> ''..''" using Cons.prems(1) by (auto simp: resolved_def plain_word_def)
  have "prefix (cur @ [w]) (cur @ w # ws)" by simp
  then have "link_target s (cur @ [w]) = None" using Cons.prems(1) unfolding resolved_def by blast
  then show ?case using Cons.prems w Cons.IH [of "cur @ [w]"]
    by (auto simp: walk_path.simps(2) link_target_def split: option.splits entry.splits if_splits)
qed simp

lemma resolved_plain: "resolved s q \<Longrightarrow> \<forall>w\<in>set q. plain_word w"
  by (simp add: resolved_def)

lemma path_words_text: "resolved s q \<Longrightarrow> path_words (path_text q) = q"
  using path_words_join(2) [OF resolved_plain] by (simp add: path_text_def)

lemma is_abs_text [simp]: "is_abs (path_text q)"
  by (simp add: path_text_def is_abs_def)

lemma normpath_text: "resolved s q \<Longrightarrow> normpath (path_text q) = path_text q"
proof -
  assume q: "resolved s q"
  have "normal_comps 1 q" by (rule normal_compsI [of _ 0 q]) (use q in \<open>auto simp: resolved_def\<close>)
  then show ?thesis using normpath_fixpoint [of 1 q] by (simp add: path_text_def)
qed

lemma path_split_text:
  "\<forall>w\<in>set q. plain_word w \<Longrightarrow> path_split (path_text q) = [] # (if q = [] then [[]] else q)"
  using path_split_join_plain [of q] by (simp add: path_text_def)

lemma reaches_text:
  assumes "resolved s q"
  shows "reaches s (path_text q) = walk_path s 40 [] q"
  using path_split_text [OF resolved_plain [OF assms]] by (simp add: reaches_def walk_path.simps(2))

lemma reaches_resolved:
  assumes "resolved s q" and "reaches s (path_text q) = Some loc"
  shows "loc = q"
  using walk_resolved [of s "[]" q] assms reaches_text [OF assms(1)] by simp

lemma realpath_resolves:
  assumes "loop_free s levels path" and "realpath_abs s levels path = Inr p"
  obtains q where "p = path_text q" and "resolved s q" and "leads s ([], path_split path) (q, [])"
proof -
  obtain r where r: "joinrealpath s levels [] (path_split path) [] [] = Inr (r, True)"
    using assms(1) by (auto simp: loop_free_def split: sum.splits prod.splits)
  have "\<exists>q. r = path_text q \<and> resolved s q \<and> leads s ([], path_split path) (q, [])"
    by (rule joinrealpath_follows [OF r]) (auto simp: cached_ok_def frames_ok_def dest: py_split_sep_free)
  then obtain q where q: "r = path_text q" "resolved s q" "leads s ([], path_split path) (q, [])" by blast
  moreover have "p = path_text q" using assms(2) r q(1) normpath_text [OF q(2)] by (auto simp: realpath_abs_def)
  ultimately show thesis using that by blast
qed

lemma validated_beneath_root:
  assumes "validate_source_path os configured path None = Inr src"
  shows "\<exists>base\<in>set configured. \<exists>r. realpath os base = Inr r \<and> prefix (path_words r) (path_words src)"
proof -
  have "within_some_root os src configured = Inr True" using assms by (simp add: validate_Inr)
  from within_some_root_True [OF this] show ?thesis by (auto simp: is_within_iff)
qed

lemma validated_location:
  assumes "is_abs path" and "loop_free s levels path"
    and "validate_source_path (fs_view levels rel s) configured path None = Inr src"
  obtains q i where "src = path_text q" and "q \<noteq> []" and "resolved s q" and "walk_path s 40 [] q = Some q"
    and "entry_at s src = Some (EFile i)" and "leads s ([], path_split path) (q, [])"
proof -
  have v: "realpath_abs s levels path = Inr src" "is_file s src"
    using assms by (auto simp: validate_Inr fs_view_def)
  obtain q where q: "src = path_text q" "resolved s q" "leads s ([], path_split path) (q, [])"
    using realpath_resolves [OF assms(2) v(1)] .
  obtain loc i where loc: "reaches s src = Some loc" "loc \<noteq> []" "entry_at s (path_text loc) = Some (EFile i)"
    using v(2) by (auto simp: is_file_def split: option.splits entry.splits)
  have "loc = q" using reaches_resolved [OF q(2)] loc(1) q(1) by simp
  then show thesis using that q loc reaches_text [OF q(2)] by simp
qed

section \<open>Theorems\<close>

text \<open>C15. What is validated is what is opened: when a requested path resolves without meeting a link
  inside its own resolution, the validated source is a regular file reached without following a single
  link, at the place its name says, at or beneath the resolved form of a configured root; and it
  is the file that the requested path leads to, if that leads anywhere.\<close>

theorem validated_source_is_the_file:
  assumes "is_abs path" and "loop_free s levels path"
    and "validate_source_path (fs_view levels rel s) configured path None = Inr src"
  shows "reaches s src = Some (path_words src) \<and> (\<exists>i. entry_at s src = Some (EFile i)) \<and>
    (\<forall>p. prefix p (path_words src) \<longrightarrow> p \<noteq> [] \<longrightarrow> link_target s p = None) \<and>
    (\<forall>loc. reaches s path = Some loc \<longrightarrow> loc = path_words src) \<and>
    (\<exists>base\<in>set configured. \<exists>r. realpath (fs_view levels rel s) base = Inr r \<and>
       prefix (path_words r) (path_words src))"
proof -
  obtain q i where q: "src = path_text q" "resolved s q" "walk_path s 40 [] q = Some q"
    "entry_at s src = Some (EFile i)" "leads s ([], path_split path) (q, [])"
    using validated_location [OF assms] .
  have "loc = q" if "reaches s path = Some loc" for loc
    using q(5) that unfolding leads_def reaches_def
    by (metis append_Nil2 fst_conv option.sel snd_conv walk_path.simps(1))
  moreover have "\<forall>p. prefix p q \<longrightarrow> p \<noteq> [] \<longrightarrow> link_target s p = None" using q(2) by (simp add: resolved_def)
  moreover note validated_beneath_root [OF assms(3)]
  ultimately show ?thesis using q reaches_text [OF q(2)] path_words_text [OF q(2)] by auto
qed

definition media_fs :: fs where
  "media_fs = \<lparr>names = [(''/media1'', EDir 2), (''/media1/loop'', ELink ''loop''), (''/media1/evil'', ELink ''/etc/shadow''),
       (''/media1/new'', ELink ''../media1/Dune.mkv''), (''/media1/Dune.mkv'', EFile 5), (''/etc'', EDir 3), (''/etc/shadow'', EFile 7)],
     contents = [], fds = []\<rparr>"

theorem validated_source_is_the_file_witness:
  "validate_source_path (fs_view 40 (\<lambda>_. Inl ValueError) media_fs) [''/media1''] ''/media1/./new'' None = Inr ''/media1/Dune.mkv'' \<and>
   reaches media_fs ''/media1/Dune.mkv'' = Some [''media1'', ''Dune.mkv'']"
proof -
  have h: "loop_free media_fs 40 ''/media1/./new''"
    "validate_source_path (fs_view 40 (\<lambda>_. Inl ValueError) media_fs) [''/media1''] ''/media1/./new'' None = Inr ''/media1/Dune.mkv''"
    "path_words ''/media1/Dune.mkv'' = [''media1'', ''Dune.mkv'']"
    by code_simp+
  then show ?thesis using validated_source_is_the_file [OF _ h(1,2)] by (simp add: is_abs_def)
qed

text \<open>The premise on loops is needed.  Once resolution meets a link inside its own resolution, the rest of the
  path is taken over as text, and normalising the text removes the link and the parent reference after
  it: whatever link stands behind them is never looked at.\<close>

lemma joinrealpath_along:
  "resolved s (p @ ws) \<Longrightarrow> \<forall>w\<in>set ws. CHR 0x00 \<notin> set w \<Longrightarrow>
     joinrealpath s levels p (ws @ rest) seen frames = joinrealpath s levels (p @ ws) rest seen frames"
proof (induction ws arbitrary: p)
  case (Cons w ws)
  have w: "w \<noteq> []" "w \<noteq> ''.''" "w \<noteq> ''..''" using Cons.prems(1) by (auto simp: resolved_def plain_word_def)
  have "prefix (p @ [w]) (p @ w # ws)" by simp
  then have "link_target s (p @ [w]) = None" using Cons.prems(1) unfolding resolved_def by blast
  then show ?case using Cons w by (simp add: joinrealpath.simps(3))
qed simp

lemma path_join_append: "xs \<noteq> [] \<Longrightarrow> ys \<noteq> [] \<Longrightarrow> path_join (xs @ ys) = path_join xs @ slash # path_join ys"
proof (induction xs)
  case (Cons x xs)
  then show ?case by (cases "xs = []") (simp_all add: py_join_Cons)
qed simp

lemma normpath_drops:
  assumes "resolved s r" and "plain_word l" and "l \<noteq> ''..''" and "plain_word e" and "e \<noteq> ''..''"
  shows "normpath (path_text (r @ [l, ''..'', e])) = path_text (r @ [e])"
proof -
  have pl: "\<forall>w\<in>set (r @ [l, ''..'', e]). plain_word w"
    using assms by (auto simp: resolved_def) (simp add: plain_word_def)
  have "normal_comps 1 r" by (rule normal_compsI [of _ 0 r]) (use assms(1) in \<open>auto simp: resolved_def\<close>)
  then have "foldl (normpath_step 1) [] r = r" using foldl_normpath_keeps [of 1 "[]" r] by simp
  then have "foldl (normpath_step 1) [] ([] # r @ [l, ''..'', e]) = r @ [e]"
    using assms(2-5) by (simp add: normpath_step_def plain_word_def)
  moreover have "initial_slashes (path_text (r @ [l, ''..'', e])) = 1"
    using initial_slashes_join [of 1 "r @ [l, ''..'', e]"] pl by (simp add: path_text_def)
  moreover have "path_split (path_text (r @ [l, ''..'', e])) = [] # r @ [l, ''..'', e]"
    using path_split_text [OF pl] by simp
  ultimately show ?thesis by (simp add: normpath_def Let_def path_text_def del: foldl_Cons)
qed

lemma realpath_behind_loop:
  assumes "resolved s r" and "\<forall>w\<in>set r. CHR 0x00 \<notin> set w"
    and "plain_word l" and "l \<noteq> ''..''" and "CHR 0x00 \<notin> set l" and "link_target s (r @ [l]) = Some l"
    and "plain_word e" and "e \<noteq> ''..''" and "0 < levels"
  shows "realpath_abs s levels (path_text (r @ [l, ''..'', e])) = Inr (path_text (r @ [e]))"
proof -
  have pl: "\<forall>w\<in>set (r @ [l]). plain_word w" "\<forall>w\<in>set (r @ [l, ''..'', e]). plain_word w"
    using assms by (auto simp: resolved_def) (simp add: plain_word_def)
  have l: "l \<noteq> []" "l \<noteq> ''.''" "\<not> is_abs l" "path_split l = [l]"
    using assms(3) by (auto simp: plain_word_def is_abs_def py_split_free split: list.splits)
  let ?rest = "[''..'', e]"
  have last: "last (path_text (r @ [l])) \<noteq> slash" "path_text (r @ [l]) \<noteq> []"
    using last_path_join [OF _ pl(1)] hd_path_join [OF _ pl(1)] by (auto simp: path_text_def)
  have "unresolved [(r @ [l], ?rest)] (os_path_join (path_text (r @ [l])) (path_join [])) = path_text (r @ [l, ''..'', e])"
    using last path_join_append [of "r @ [l]" ?rest]
    by (simp add: unresolved_def os_path_join_def is_abs_def path_text_def)
  moreover have "joinrealpath s levels [] (path_split (path_text (r @ [l, ''..'', e]))) [] [] =
      joinrealpath s levels r (l # ?rest) [] []"
    using path_split_text [OF pl(2)] joinrealpath_along [of s "[]" r levels "l # ?rest"] assms(1,2)
    by (simp add: joinrealpath.simps(3))
  ultimately show ?thesis
    using assms(3-6,9) l normpath_drops [OF assms(1,3,4,7,8)]
    by (simp add: realpath_abs_def joinrealpath.simps(3))
qed

text \<open>C16. A link that leads to itself defeats the check: with such a link in an allowed root, a path through
  it and back up is accepted for every name in the root that leads to a file, wherever it leads; the
  validated source is then the link itself, unresolved.\<close>

theorem self_link_hides_links:
  assumes "resolved s r" and "r \<noteq> []" and "\<forall>w\<in>set r. CHR 0x00 \<notin> set w" and "path_text r \<in> set configured"
    and "plain_word l" and "l \<noteq> ''..''" and "CHR 0x00 \<notin> set l" and "link_target s (r @ [l]) = Some l"
    and "plain_word e" and "e \<noteq> ''..''" and "is_file s (path_text (r @ [e]))"
    and "\<forall>base\<in>set configured. \<exists>p. realpath (fs_view levels rel s) base = Inr p" and "0 < levels"
  shows "validate_source_path (fs_view levels rel s) configured (path_text (r @ [l, ''..'', e])) None =
    Inr (path_text (r @ [e]))"
proof -
  let ?src = "path_text (r @ [e])"
  have re: "\<forall>w\<in>set (r @ [e]). plain_word w" using assms(1,9) by (auto simp: resolved_def)
  have words: "path_words ?src = r @ [e]" "path_words (path_text r) = r"
    using path_words_join(2) [OF re] path_words_text [OF assms(1)] by (simp_all add: path_text_def)
  have base: "realpath (fs_view levels rel s) (path_text r) = Inr (path_text r)"
  proof -
    have "joinrealpath s levels [] ([] # r @ []) [] [] = Inr (path_text r, True)"
      using joinrealpath_along [of s "[]" r levels "[]"] assms(1,3) by (simp add: joinrealpath.simps(3))
    then show ?thesis using path_split_text [OF resolved_plain [OF assms(1)]] assms(2) normpath_text [OF assms(1)]
      by (simp add: fs_view_def realpath_abs_def)
  qed
  have "canonical (path_text r)"
    using canonical_render(1) [OF resolved_plain [OF assms(1)]] by (simp add: path_text_def)
  then have within: "is_within ?src (path_text r)" by (simp add: is_within_iff words)
  have "within_some_root (fs_view levels rel s) ?src configured = Inr True"
    using assms(4,12)
  proof (induction configured)
    case (Cons c cs)
    then show ?case using base within by (cases "c = path_text r") auto
  qed simp
  moreover have "realpath (fs_view levels rel s) (path_text (r @ [l, ''..'', e])) = Inr ?src"
    using realpath_behind_loop [OF assms(1,3,5-10,13)] by (simp add: fs_view_def)
  ultimately show ?thesis using assms(11) by (simp add: validate_Inr fs_view_def)
qed

text \<open>The direct request for the link is refused; through the loop it is accepted, and opens a file
  outside every root.\<close>

theorem self_link_hides_links_witness:
  "validate_source_path (fs_view 40 (\<lambda>_. Inl ValueError) media_fs) [''/media1''] ''/media1/evil'' None =
     Inl (PathNotAllowed (OutsideAllowedRoots [''/media1''] ''/media1/evil'')) \<and>
   validate_source_path (fs_view 40 (\<lambda>_. Inl ValueError) media_fs) [''/media1''] ''/media1/loop/../evil'' None = Inr ''/media1/evil'' \<and>
   reaches media_fs ''/media1/evil'' = Some [''etc'', ''shadow'']"
proof -
  have d: "link_target media_fs [''media1''] = None" "link_target media_fs [''media1'', ''loop''] = Some ''loop''"
    "is_file media_fs ''/media1/evil''" "realpath (fs_view 40 (\<lambda>_. Inl ValueError) media_fs) ''/media1'' = Inr ''/media1''"
    "reaches media_fs ''/media1/evil'' = Some [''etc'', ''shadow'']"
    "validate_source_path (fs_view 40 (\<lambda>_. Inl ValueError) media_fs) [''/media1''] ''/media1/evil'' None =
       Inl (PathNotAllowed (OutsideAllowedRoots [''/media1''] ''/media1/evil''))"
    by code_simp+
  have "resolved media_fs [''media1'']" using d(1) by (auto simp: resolved_def plain_word_def prefix_Cons)
  then have "validate_source_path (fs_view 40 (\<lambda>_. Inl ValueError) media_fs) [''/media1'']
      (path_text ([''media1''] @ [''loop'', ''..'', ''evil''])) None = Inr (path_text ([''media1''] @ [''evil'']))"
    by (rule self_link_hides_links) (use d in \<open>simp_all add: path_text_def plain_word_def\<close>)
  then show ?thesis using d by (simp add: path_text_def)
qed

text \<open>ValueError is the only exception of realpath that becomes a refusal.  A chain of links longer than the
  recursion limit raises RecursionError, which escapes from the check.\<close>

lemma chain_too_deep:
  assumes "\<And>j. plain_word (f j) \<and> f j \<noteq> ''..'' \<and> CHR 0x00 \<notin> set (f j)" and "inj f"
    and "\<forall>w\<in>set path. plain_word w"
    and "\<forall>j. k \<le> j \<and> j \<le> k + (levels - length frames) \<longrightarrow> link_target s (path @ [f j]) = Some (f (Suc j))"
    and "\<forall>j\<ge>k. map_of seen (path_text (path @ [f j])) = None"
  shows "joinrealpath s levels path (f k # rest) seen frames = Inl RecursionError"
  using assms(4,5)
proof (induction "levels - length frames" arbitrary: k rest seen frames)
  case 0
  have "f k \<notin> {[], ''.'', ''..''}" using assms(1) [of k] by (auto simp: plain_word_def)
  then show ?case using 0 assms(1) [of k] by (simp add: joinrealpath.simps(3))
next
  case (Suc n)
  let ?seen = "AList.update (path_text (path @ [f k])) None seen" and ?fr = "(path @ [f k], rest) # frames"
  have f: "f k \<notin> {[], ''.'', ''..''}" "CHR 0x00 \<notin> set (f k)" "\<not> is_abs (f (Suc k))" "path_split (f (Suc k)) = [f (Suc k)]"
    using assms(1) [of k] assms(1) [of "Suc k"]
    by (auto simp: plain_word_def is_abs_def py_split_free split: list.splits)
  have new: "path_text (path @ [f j]) \<noteq> path_text (path @ [f k])" if "Suc k \<le> j" for j
    using path_text_eq [of "path @ [f j]" "path @ [f k]"] assms(1,3) that injD [OF assms(2), of j k] by auto
  have "joinrealpath s levels path (f (Suc k) # []) ?seen ?fr = Inl RecursionError"
  proof (rule Suc.hyps(1))
    show "\<forall>j. Suc k \<le> j \<and> j \<le> Suc k + (levels - length ?fr) \<longrightarrow> link_target s (path @ [f j]) = Some (f (Suc j))"
      using Suc.hyps(2) Suc.prems(1) by auto
    show "\<forall>j\<ge>Suc k. map_of ?seen (path_text (path @ [f j])) = None"
      using new Suc.prems(2) by (auto simp: update_conv')
  qed (use Suc.hyps(2) in simp)
  then show ?case using f Suc.prems Suc.hyps(2) by (simp add: joinrealpath.simps(3))
qed

lemma long_chain_escapes:
  assumes "resolved s r" and "\<forall>w\<in>set r. CHR 0x00 \<notin> set w" and "configured \<noteq> []"
    and "\<And>j. plain_word (f j) \<and> f j \<noteq> ''..'' \<and> CHR 0x00 \<notin> set (f j)" and "inj f"
    and "\<And>j. j \<le> levels \<Longrightarrow> link_target s (r @ [f j]) = Some (f (Suc j))"
  shows "validate_source_path (fs_view levels rel s) configured (path_text (r @ [f 0])) None = Inl RecursionError"
proof -
  have pl: "\<forall>w\<in>set (r @ [f 0]). plain_word w" using assms(1,4) by (auto simp: resolved_def)
  have "joinrealpath s levels [] (path_split (path_text (r @ [f 0]))) [] [] = joinrealpath s levels r (f 0 # []) [] []"
    using path_split_text [OF pl] joinrealpath_along [of s "[]" r levels "[f 0]"] assms(1,2)
    by (simp add: joinrealpath.simps(3))
  moreover have "joinrealpath s levels r (f 0 # []) [] [] = Inl RecursionError"
    using resolved_plain [OF assms(1)] assms(6) by (intro chain_too_deep [OF assms(4,5)]) auto
  ultimately show ?thesis using assms(3) by (simp add: validate_source_path_def fs_view_def realpath_abs_def)
qed

end
