(* ===== verification/Jobs.thy ===== *)
theory Jobs
  imports Errors
begin

text \<open>
  The job store (app/job_manager.py): Job objects on a heap, the manager's dictionary, queue,
  backlog counter and threads, and every critical section and lock-free write as one atomic
  operation on the manager's state.  The step relation interleaves the operations of the request
  threads, the workers, the sweeper and the shutdown.  A job function is opaque: while a worker
  runs it, it writes fields of its own job, and it returns or raises.
\<close>

section \<open>Jobs\<close>

datatype jobstatus = QUEUED | RUNNING | COMPLETED | FAILED | CANCELLED

fun status_value :: "jobstatus \<Rightarrow> string" where
  "status_value QUEUED = ''queued''"
| "status_value RUNNING = ''running''"
| "status_value COMPLETED = ''completed''"
| "status_value FAILED = ''failed''"
| "status_value CANCELLED = ''cancelled''"

definition terminal :: "jobstatus \<Rightarrow> bool" where
  "terminal s \<longleftrightarrow> s \<in> {COMPLETED, FAILED, CANCELLED}"

lemma terminal_simps [simp]:
  "\<not> terminal QUEUED" "\<not> terminal RUNNING" "terminal COMPLETED" "terminal FAILED" "terminal CANCELLED"
  by (simp_all add: terminal_def)

text \<open>The life cycle order: a job is queued, then running, then in one of the final states.\<close>

fun status_rank :: "jobstatus \<Rightarrow> nat" where
  "status_rank QUEUED = 0"
| "status_rank RUNNING = 1"
| "status_rank _ = 2"

instantiation jobstatus :: order
begin

definition less_eq_jobstatus :: "jobstatus \<Rightarrow> jobstatus \<Rightarrow> bool" where
  "less_eq_jobstatus a b \<longleftrightarrow> a = b \<or> status_rank a < status_rank b"

definition less_jobstatus :: "jobstatus \<Rightarrow> jobstatus \<Rightarrow> bool" where
  "less_jobstatus a b \<longleftrightarrow> status_rank a < status_rank b"

instance
  by standard (auto simp: less_eq_jobstatus_def less_jobstatus_def)

end

lemma terminal_rank: "terminal s \<longleftrightarrow> status_rank s = 2"
  by (cases s) simp_all

lemma terminal_maximal: "terminal a \<Longrightarrow> a \<le> b \<Longrightarrow> b = a"
  by (cases b) (auto simp: less_eq_jobstatus_def terminal_rank)

text \<open>str(exc) is kept as the exception; the other message is the refusal of submit.\<close>

datatype job_error = NotAccepted | Raised exc

record job =
  job_id :: string
  status :: jobstatus
  progress :: pyfloat
  eta_seconds :: "int option"
  eta_updated_at :: "rat option"
  message :: string
  job_error :: "job_error option"
  output_path :: "string option"
  encoder_used :: "string option"
  created_at :: rat
  finished_at :: "rat option"
  cancelled :: bool            \<comment> \<open>cancel_event.is_set()\<close>

definition new_job :: "string \<Rightarrow> rat \<Rightarrow> job" where
  "new_job uuid now = \<lparr>job_id = uuid, status = QUEUED, progress = Fin 0, eta_seconds = None,
     eta_updated_at = None, message = [], job_error = None, output_path = None,
     encoder_used = None, created_at = now, finished_at = None, cancelled = False\<rparr>"

text \<open>One attribute store is atomic.\<close>

datatype job_write =
    SetProgress pyfloat
  | SetEta "int option"
  | SetEtaAt "rat option"
  | SetMessage string
  | SetOutput string
  | SetEncoder string
  | SetFinished rat
  | SetError exc
  | SetStatus jobstatus

fun write_job :: "job_write \<Rightarrow> job \<Rightarrow> job" where
  "write_job (SetProgress x) j = j\<lparr>progress := x\<rparr>"
| "write_job (SetEta n) j = j\<lparr>eta_seconds := n\<rparr>"
| "write_job (SetEtaAt t) j = j\<lparr>eta_updated_at := t\<rparr>"
| "write_job (SetMessage s) j = j\<lparr>message := s\<rparr>"
| "write_job (SetOutput s) j = j\<lparr>output_path := Some s\<rparr>"
| "write_job (SetEncoder s) j = j\<lparr>encoder_used := Some s\<rparr>"
| "write_job (SetFinished t) j = j\<lparr>finished_at := Some t\<rparr>"
| "write_job (SetError e) j = j\<lparr>job_error := Some (Raised e)\<rparr>"
| "write_job (SetStatus s) j = j\<lparr>status := s\<rparr>"

definition set_eta :: "rat \<Rightarrow> int option \<Rightarrow> job_write list" where
  "set_eta clock seconds =
     [SetEta seconds, SetEtaAt (if seconds \<noteq> None then Some clock else None)]"

text \<open>The writes that are the job function's: not finished_at, error or status.\<close>

fun is_report :: "job_write \<Rightarrow> bool" where
  "is_report (SetFinished _) \<longleftrightarrow> False"
| "is_report (SetError _) \<longleftrightarrow> False"
| "is_report (SetStatus _) \<longleftrightarrow> False"
| "is_report _ \<longleftrightarrow> True"

text \<open>A difference of two clock readings is a rounded float.\<close>

definition elapsed :: "rat \<Rightarrow> rat \<Rightarrow> pyfloat" where
  "elapsed now t = round64 (now - t)"

definition ETA_MAX_AGE_SECONDS :: rat where
  "ETA_MAX_AGE_SECONDS = 30"

record job_view =
  v_job_id :: string
  v_status :: string
  v_progress :: pyfloat
  v_eta_seconds :: "int option"
  v_message :: string
  v_error :: "job_error option"
  v_output_path :: "string option"
  v_encoder_used :: "string option"
  v_created_at :: rat
  v_finished_at :: "rat option"

definition to_dict :: "rat \<Rightarrow> job \<Rightarrow> job_view" where
  "to_dict clock j =
     (let eta = (if status j \<noteq> RUNNING then None
                 else (case eta_updated_at j of
                     None \<Rightarrow> None
                   | Some t \<Rightarrow> if flt (Fin ETA_MAX_AGE_SECONDS) (elapsed clock t) then None
                               else eta_seconds j))
      in \<lparr>v_job_id = job_id j, v_status = status_value (status j), v_progress = round1 (progress j),
          v_eta_seconds = eta, v_message = message j, v_error = job_error j,
          v_output_path = output_path j, v_encoder_used = encoder_used j,
          v_created_at = created_at j, v_finished_at = finished_at j\<rparr>)"

section \<open>The manager\<close>

text \<open>A worker's position: waiting on the queue; with an item taken and still counted; before the
  claim; inside the job function; before the remaining writes of a finished job (and whether the
  thread dies after them); ended.\<close>

datatype 'f worker =
    WGet
  | WTaken nat 'f
  | WClaim nat 'f
  | WRun nat 'f
  | WWrite nat "job_write list" bool
  | WDone

datatype shutdown_pc = NoShutdown | Cancelling "nat list" | Sentinels nat | Joining

text \<open>A Job object is its index on the heap; putting holds the jobs whose submit has left the
  lock but not yet called put; a queue item None is a sentinel.\<close>

record 'f mgr =
  heap :: "job list"
  jobs :: "(string \<times> nat) list"
  queue :: "(nat \<times> 'f) option list"
  putting :: "(nat \<times> 'f) list"
  pending :: int
  is_running :: bool
  threads :: "nat list"
  workers :: "'f worker list"
  shut :: shutdown_pc
  n_workers :: int
  ttl :: int
  max_queue :: int

definition init_manager :: "int \<Rightarrow> int \<Rightarrow> int \<Rightarrow> 'f mgr" where
  "init_manager n t q = \<lparr>heap = [], jobs = [], queue = [], putting = [], pending = 0,
     is_running = False, threads = [], workers = [], shut = NoShutdown,
     n_workers = n, ttl = t, max_queue = q\<rparr>"

definition start_manager :: "'f mgr \<Rightarrow> 'f mgr" where
  "start_manager m =
     (if is_running m then m
      else (let k = length (workers m); n = nat (max 1 (n_workers m)) in
        m\<lparr>is_running := True, workers := workers m @ replicate n WGet,
          threads := threads m @ [k ..< k + n]\<rparr>))"

definition update_job :: "nat \<Rightarrow> (job \<Rightarrow> job) \<Rightarrow> 'f mgr \<Rightarrow> 'f mgr" where
  "update_job r f m = m\<lparr>heap := (heap m)[r := f (heap m ! r)]\<rparr>"

definition set_worker :: "nat \<Rightarrow> 'f worker \<Rightarrow> 'f mgr \<Rightarrow> 'f mgr" where
  "set_worker i w m = m\<lparr>workers := (workers m)[i := w]\<rparr>"

subsection \<open>Submitting, reading, deleting, sweeping\<close>

datatype submitted = Full exc | NotRunning nat | Accepted nat

text \<open>The critical section of submit, then the put that follows it outside the lock.\<close>

definition submit_locked :: "string \<Rightarrow> rat \<Rightarrow> rat \<Rightarrow> 'f mgr \<Rightarrow> submitted \<times> 'f mgr" where
  "submit_locked uuid created now m =
     (let j = new_job uuid created; r = length (heap m) in
      if \<not> is_running m then
        (NotRunning r, m\<lparr>heap := heap m @ [j\<lparr>finished_at := Some now, job_error := Some NotAccepted,
           status := FAILED\<rparr>]\<rparr>)
      else if 0 < max_queue m \<and> max_queue m \<le> pending m then
        (Full (QueueFull (pending m) (max_queue m)), m)
      else
        (Accepted r, m\<lparr>heap := heap m @ [j], pending := pending m + 1,
           jobs := AList.update uuid r (jobs m)\<rparr>))"

definition put :: "(nat \<times> 'f) option \<Rightarrow> 'f mgr \<Rightarrow> 'f mgr" where
  "put item m = m\<lparr>queue := queue m @ [item]\<rparr>"

definition submit :: "string \<Rightarrow> rat \<Rightarrow> rat \<Rightarrow> 'f \<Rightarrow> 'f mgr \<Rightarrow> nat result \<times> 'f mgr" where
  "submit uuid created now fn m =
     (case submit_locked uuid created now m of
        (Full e, m') \<Rightarrow> (Inl e, m')
      | (NotRunning r, m') \<Rightarrow> (Inr r, m')
      | (Accepted r, m') \<Rightarrow> (Inr r, put (Some (r, fn)) m'))"

definition get :: "string \<Rightarrow> 'f mgr \<Rightarrow> nat option" where
  "get jid m = map_of (jobs m) jid"

definition delete :: "string \<Rightarrow> 'f mgr \<Rightarrow> bool \<times> 'f mgr" where
  "delete jid m =
     (case map_of (jobs m) jid of
        None \<Rightarrow> (False, m)
      | Some r \<Rightarrow> (True, update_job r (\<lambda>j. j\<lparr>cancelled := True\<rparr>) (m\<lparr>jobs := AList.delete jid (jobs m)\<rparr>)))"

definition expired :: "rat \<Rightarrow> int \<Rightarrow> job \<Rightarrow> bool" where
  "expired now limit j =
     (terminal (status j) \<and>
      (case finished_at j of
         None \<Rightarrow> False
       | Some t \<Rightarrow> \<not> flt (elapsed now t) (Fin (of_int limit))))"

definition sweep :: "rat \<Rightarrow> 'f mgr \<Rightarrow> int \<times> 'f mgr" where
  "sweep now m =
     (let gone = map fst (filter (\<lambda>(k, r). expired now (ttl m) (heap m ! r)) (jobs m)) in
      (int (length gone), m\<lparr>jobs := fold AList.delete gone (jobs m)\<rparr>))"

subsection \<open>The workers\<close>

definition worker_take :: "nat \<Rightarrow> 'f mgr \<Rightarrow> 'f mgr option" where
  "worker_take i m =
     (if i < length (workers m) \<and> workers m ! i = WGet
      then (case queue m of
              [] \<Rightarrow> None
            | item # rest \<Rightarrow> Some (set_worker i
                (case item of None \<Rightarrow> WDone | Some (r, fn) \<Rightarrow> WTaken r fn) (m\<lparr>queue := rest\<rparr>)))
      else None)"

definition worker_uncount :: "nat \<Rightarrow> 'f mgr \<Rightarrow> 'f mgr option" where
  "worker_uncount i m =
     (if i < length (workers m) then
        (case workers m ! i of
           WTaken r fn \<Rightarrow> Some (set_worker i (WClaim r fn) (m\<lparr>pending := pending m - 1\<rparr>))
         | _ \<Rightarrow> None)
      else None)"

definition claim :: "nat \<Rightarrow> 'f mgr \<Rightarrow> bool \<times> 'f mgr" where
  "claim r m =
     (if cancelled (heap m ! r) then (False, m)
      else (True, update_job r (\<lambda>j. j\<lparr>status := RUNNING\<rparr>) m))"

definition refused_writes :: "rat \<Rightarrow> job_write list" where
  "refused_writes now = [SetFinished now, SetStatus CANCELLED]"

fun terminal_writes :: "rat \<Rightarrow> unit result \<Rightarrow> job_write list" where
  "terminal_writes now (Inr _) = [SetFinished now, SetProgress (Fin 100), SetStatus COMPLETED]"
| "terminal_writes now (Inl HandBrakeCancelled) = [SetFinished now, SetStatus CANCELLED]"
| "terminal_writes now (Inl e) = [SetFinished now, SetError e, SetStatus FAILED]"

text \<open>Only an exception outside Exception is raised again and ends the thread.\<close>

fun kills_thread :: "unit result \<Rightarrow> bool" where
  "kills_thread (Inr _) \<longleftrightarrow> False"
| "kills_thread (Inl e) \<longleftrightarrow> \<not> is_exception e"

definition worker_claim :: "rat \<Rightarrow> nat \<Rightarrow> 'f mgr \<Rightarrow> 'f mgr option" where
  "worker_claim now i m =
     (if i < length (workers m) then
        (case workers m ! i of
           WClaim r fn \<Rightarrow>
             (case claim r m of
                (True, m') \<Rightarrow> Some (set_worker i (WRun r fn) m')
              | (False, m') \<Rightarrow> Some (set_worker i (WWrite r (refused_writes now) False) m'))
         | _ \<Rightarrow> None)
      else None)"

definition worker_report :: "nat \<Rightarrow> job_write \<Rightarrow> 'f mgr \<Rightarrow> 'f mgr option" where
  "worker_report i w m =
     (if i < length (workers m) then
        (case workers m ! i of
           WRun r fn \<Rightarrow> if is_report w then Some (update_job r (write_job w) m) else None
         | _ \<Rightarrow> None)
      else None)"

definition worker_return :: "rat \<Rightarrow> unit result \<Rightarrow> nat \<Rightarrow> 'f mgr \<Rightarrow> 'f mgr option" where
  "worker_return now res i m =
     (if i < length (workers m) then
        (case workers m ! i of
           WRun r fn \<Rightarrow> Some (set_worker i (WWrite r (terminal_writes now res) (kills_thread res)) m)
         | _ \<Rightarrow> None)
      else None)"

definition worker_write :: "nat \<Rightarrow> 'f mgr \<Rightarrow> 'f mgr option" where
  "worker_write i m =
     (if i < length (workers m) then
        (case workers m ! i of
           WWrite r (w # ws) dies \<Rightarrow>
             Some (set_worker i
               (if ws \<noteq> [] then WWrite r ws dies else if dies then WDone else WGet)
               (update_job r (write_job w) m))
         | _ \<Rightarrow> None)
      else None)"

subsection \<open>Shutting down\<close>

definition shutdown_begin :: "'f mgr \<Rightarrow> 'f mgr" where
  "shutdown_begin m =
     m\<lparr>is_running := False,
       shut := Cancelling (filter (\<lambda>r. \<not> terminal (status (heap m ! r))) (map snd (jobs m)))\<rparr>"

definition shutdown_step :: "'f mgr \<Rightarrow> 'f mgr option" where
  "shutdown_step m =
     (case shut m of
        NoShutdown \<Rightarrow> None
      | Cancelling [] \<Rightarrow> Some (m\<lparr>shut := Sentinels (length (threads m))\<rparr>)
      | Cancelling (r # rs) \<Rightarrow>
          Some (update_job r (\<lambda>j. j\<lparr>cancelled := True\<rparr>) (m\<lparr>shut := Cancelling rs\<rparr>))
      | Sentinels 0 \<Rightarrow> Some (m\<lparr>shut := Joining\<rparr>)
      | Sentinels (Suc n) \<Rightarrow> Some (put None (m\<lparr>shut := Sentinels n\<rparr>))
      | Joining \<Rightarrow> Some (m\<lparr>shut := NoShutdown, threads := []\<rparr>))"

section \<open>The step relation\<close>

text \<open>uuid4 is fresh.  A second start or shutdown waits for a shutdown in progress: both run in the
  lifespan of the one event loop.\<close>

inductive step :: "'f mgr \<Rightarrow> 'f mgr \<Rightarrow> bool" where
  step_start: "shut m = NoShutdown \<Longrightarrow> step m (start_manager m)"
| step_shutdown: "shut m = NoShutdown \<Longrightarrow> step m (shutdown_begin m)"
| step_shutting: "shutdown_step m = Some m' \<Longrightarrow> step m m'"
| step_submit_accept: "\<lbrakk>uuid \<notin> job_id ` set (heap m); submit_locked uuid created now m = (Accepted r, m')\<rbrakk> \<Longrightarrow>
    step m (m'\<lparr>putting := putting m' @ [(r, fn)]\<rparr>)"
| step_submit_refuse: "\<lbrakk>uuid \<notin> job_id ` set (heap m); submit_locked uuid created now m = (NotRunning r, m')\<rbrakk> \<Longrightarrow>
    step m m'"
| step_put: "putting m = xs @ p # ys \<Longrightarrow> step m (put (Some p) (m\<lparr>putting := xs @ ys\<rparr>))"
| step_delete: "step m (snd (delete jid m))"
| step_sweep: "step m (snd (sweep now m))"
| step_take: "worker_take i m = Some m' \<Longrightarrow> step m m'"
| step_uncount: "worker_uncount i m = Some m' \<Longrightarrow> step m m'"
| step_claim: "worker_claim now i m = Some m' \<Longrightarrow> step m m'"
| step_report: "worker_report i w m = Some m' \<Longrightarrow> step m m'"
| step_return: "worker_return now res i m = Some m' \<Longrightarrow> step m m'"
| step_write: "worker_write i m = Some m' \<Longrightarrow> step m m'"

end
