(* ===== verification/JobsInvariant.thy ===== *)
theory JobsInvariant
  imports Jobs
begin

text \<open>
  The inductive invariant of the job store: references are valid, every unfinished job has exactly
  one owner (a pending put, the queue, one worker), the backlog counter is exact, the jobs are in
  the state their owner expects, ownerless jobs are finished, and unfinished jobs are stored or
  cancelled.  Each operation preserves it, the interpretation of invariant_system lifts it to all
  runs, and the last section states how a step may change a job.
\<close>

section \<open>The invariant\<close>

fun busy :: "'f worker \<Rightarrow> nat list" where
  "busy (WTaken r fn) = [r]"
| "busy (WClaim r fn) = [r]"
| "busy (WRun r fn) = [r]"
| "busy (WWrite r ws d) = [r]"
| "busy _ = []"

fun is_taken :: "'f worker \<Rightarrow> bool" where
  "is_taken (WTaken r fn) \<longleftrightarrow> True"
| "is_taken _ \<longleftrightarrow> False"

fun queued_refs :: "(nat \<times> 'f) option list \<Rightarrow> nat list" where
  "queued_refs [] = []"
| "queued_refs (None # q) = queued_refs q"
| "queued_refs (Some (r, fn) # q) = r # queued_refs q"

text \<open>The jobs waiting for a worker, and the jobs that some thread still has to finish.\<close>

definition backlog :: "'f mgr \<Rightarrow> nat list" where
  "backlog m = map fst (putting m) @ queued_refs (queue m)"

definition held :: "'f worker list \<Rightarrow> nat list" where
  "held ws = concat (map busy ws)"

definition owned :: "'f mgr \<Rightarrow> nat list" where
  "owned m = backlog m @ held (workers m)"

fun is_status :: "job_write \<Rightarrow> bool" where
  "is_status (SetStatus _) \<longleftrightarrow> True"
| "is_status _ \<longleftrightarrow> False"

definition waiting :: "job \<Rightarrow> bool" where
  "waiting j \<longleftrightarrow> status j = QUEUED \<and> finished_at j = None"

definition settling :: "job \<Rightarrow> job_write list \<Rightarrow> bool" where
  "settling j ws \<longleftrightarrow> \<not> terminal (status j) \<and> ws \<noteq> [] \<and>
     (\<exists>s. last ws = SetStatus s \<and> terminal s \<and> (status j = QUEUED \<longrightarrow> s = CANCELLED \<and> cancelled j)) \<and>
     (\<forall>w\<in>set (butlast ws). \<not> is_status w) \<and>
     (finished_at j \<noteq> None \<or> (\<exists>t. SetFinished t \<in> set ws))"

fun worker_ok :: "job list \<Rightarrow> 'f worker \<Rightarrow> bool" where
  "worker_ok h (WTaken r fn) \<longleftrightarrow> waiting (h ! r)"
| "worker_ok h (WClaim r fn) \<longleftrightarrow> waiting (h ! r)"
| "worker_ok h (WRun r fn) \<longleftrightarrow> status (h ! r) = RUNNING \<and> finished_at (h ! r) = None"
| "worker_ok h (WWrite r ws d) \<longleftrightarrow> settling (h ! r) ws"
| "worker_ok h _ \<longleftrightarrow> True"

fun cancel_list :: "shutdown_pc \<Rightarrow> nat list" where
  "cancel_list (Cancelling rs) = rs"
| "cancel_list _ = []"

definition refs_ok :: "'f mgr \<Rightarrow> bool" where
  "refs_ok m \<longleftrightarrow> (\<forall>r\<in>set (owned m). r < length (heap m)) \<and>
     (\<forall>(k, r)\<in>set (jobs m). r < length (heap m) \<and> job_id (heap m ! r) = k) \<and>
     (\<forall>r\<in>set (cancel_list (shut m)). r < length (heap m)) \<and>
     distinct (map fst (jobs m))"

definition counted :: "'f mgr \<Rightarrow> bool" where
  "counted m \<longleftrightarrow> pending m = int (length (backlog m) + length (filter is_taken (workers m)))"

definition bounded :: "'f mgr \<Rightarrow> bool" where
  "bounded m \<longleftrightarrow> (0 < max_queue m \<longrightarrow> pending m \<le> max_queue m)"

definition states_ok :: "'f mgr \<Rightarrow> bool" where
  "states_ok m \<longleftrightarrow> (\<forall>r\<in>set (backlog m). waiting (heap m ! r)) \<and>
     (\<forall>w\<in>set (workers m). worker_ok (heap m) w)"

definition settled :: "'f mgr \<Rightarrow> bool" where
  "settled m \<longleftrightarrow> (\<forall>r<length (heap m). r \<notin> set (owned m) \<longrightarrow>
     terminal (status (heap m ! r)) \<and> finished_at (heap m ! r) \<noteq> None)"

definition reachable_or_cancelled :: "'f mgr \<Rightarrow> bool" where
  "reachable_or_cancelled m \<longleftrightarrow> (\<forall>r<length (heap m).
     terminal (status (heap m ! r)) \<or> cancelled (heap m ! r) \<or>
     (r \<in> snd ` set (jobs m) \<and> (is_running m \<or> r \<in> set (cancel_list (shut m)))))"

definition mgr_inv :: "'f mgr \<Rightarrow> bool" where
  "mgr_inv m \<longleftrightarrow> refs_ok m \<and> distinct (owned m) \<and> counted m \<and> bounded m \<and> states_ok m \<and>
     settled m \<and> reachable_or_cancelled m"

lemmas inv_parts = mgr_inv_def refs_ok_def counted_def bounded_def states_ok_def settled_def
  reachable_or_cancelled_def

lemma inv_part:
  assumes "mgr_inv m"
  shows "refs_ok m" "distinct (owned m)" "counted m" "bounded m" "states_ok m" "settled m"
    "reachable_or_cancelled m"
  using assms by (simp_all add: mgr_inv_def)

lemmas view_defs = owned_def backlog_def held_def update_job_def set_worker_def

lemma owned_frame [simp]:
  "backlog (m\<lparr>heap := h\<rparr>) = backlog m" "backlog (m\<lparr>jobs := js\<rparr>) = backlog m"
  "backlog (m\<lparr>pending := n\<rparr>) = backlog m" "backlog (m\<lparr>is_running := b\<rparr>) = backlog m"
  "backlog (m\<lparr>threads := ts\<rparr>) = backlog m" "backlog (m\<lparr>shut := s\<rparr>) = backlog m"
  "backlog (m\<lparr>workers := ws\<rparr>) = backlog m" "backlog (update_job r f m) = backlog m"
  "backlog (set_worker i w m) = backlog m"
  "owned (m\<lparr>heap := h\<rparr>) = owned m" "owned (m\<lparr>jobs := js\<rparr>) = owned m"
  "owned (m\<lparr>pending := n\<rparr>) = owned m" "owned (m\<lparr>is_running := b\<rparr>) = owned m"
  "owned (m\<lparr>threads := ts\<rparr>) = owned m" "owned (m\<lparr>shut := s\<rparr>) = owned m"
  "owned (update_job r f m) = owned m"
  by (simp_all add: view_defs)

lemma queued_refs_append [simp]: "queued_refs (p @ q) = queued_refs p @ queued_refs q"
  by (induction p rule: queued_refs.induct) simp_all

lemma worker_split:
  assumes "i < length (workers m)"
  obtains xs ys where "workers m = xs @ (workers m ! i) # ys" and "i = length xs"
  using id_take_nth_drop [OF assms] assms by (metis length_take min.absorb2 less_imp_le)

lemma mgr_inv_init: "mgr_inv (init_manager n t q)"
  by (simp add: inv_parts view_defs init_manager_def)

lemma held_replicate_WGet [simp]: "concat (map busy (replicate n WGet)) = []"
  by (induction n) simp_all

lemma filter_taken_WGet [simp]: "filter is_taken (replicate n WGet) = []"
  by (induction n) simp_all

lemma inv_start: "mgr_inv m \<Longrightarrow> mgr_inv (start_manager m)"
  by (auto simp: inv_parts view_defs start_manager_def Let_def)

lemma inv_shutdown_begin: "mgr_inv m \<Longrightarrow> mgr_inv (shutdown_begin m)"
  by (auto simp: inv_parts view_defs shutdown_begin_def)

text \<open>Setting a cancel event, and any other write that keeps what the invariant reads of a job.\<close>

lemma worker_ok_mono:
  assumes "\<And>r. status (h' ! r) = status (h ! r)" "\<And>r. finished_at (h' ! r) = finished_at (h ! r)"
    and "\<And>r. cancelled (h ! r) \<Longrightarrow> cancelled (h' ! r)" and "worker_ok h w"
  shows "worker_ok h' w"
  using assms(3,4) by (cases w) (auto simp: assms(1,2) waiting_def settling_def)

lemma nth_update_or: "xs[i := x] ! k = xs ! k \<or> (k = i \<and> xs[i := x] ! k = x)"
  by (cases "i = k"; cases "i < length xs") (simp_all add: not_less list_update_beyond)

lemma inv_update_job:
  assumes "mgr_inv m" and "\<And>j. status (f j) = status j" "\<And>j. finished_at (f j) = finished_at j"
    and "\<And>j. job_id (f j) = job_id j" "\<And>j. cancelled j \<Longrightarrow> cancelled (f j)"
  shows "mgr_inv (update_job r f m)"
proof -
  let ?h = "(heap m)[r := f (heap m ! r)]"
  have same: "status (?h ! k) = status (heap m ! k)" "finished_at (?h ! k) = finished_at (heap m ! k)"
    "job_id (?h ! k) = job_id (heap m ! k)" "cancelled (heap m ! k) \<Longrightarrow> cancelled (?h ! k)" for k
    using nth_update_or [of "heap m" r "f (heap m ! r)" k] assms(2-5) by auto
  have w: "worker_ok (heap m) w \<Longrightarrow> worker_ok ?h w" for w :: "'a worker"
    by (rule worker_ok_mono) (rule same | assumption)+
  have k: "waiting (?h ! k) = waiting (heap m ! k)" for k by (simp only: waiting_def same)
  let ?m = "update_job r f m"
  have eqs: "backlog ?m = backlog m" "owned ?m = owned m" "heap ?m = ?h" "jobs ?m = jobs m"
    "workers ?m = workers m" "pending ?m = pending m" "max_queue ?m = max_queue m"
    "is_running ?m = is_running m" "shut ?m = shut m" "length ?h = length (heap m)"
    by (simp_all add: view_defs)
  note m = inv_part [OF assms(1)]
  have "refs_ok ?m" using m(1) unfolding refs_ok_def eqs same(3) .
  moreover have "counted ?m" using m(3) unfolding counted_def eqs .
  moreover have "bounded ?m" using m(4) unfolding bounded_def eqs .
  moreover have "states_ok ?m" using m(5) w unfolding states_ok_def eqs k by blast
  moreover have "settled ?m" using m(6) unfolding settled_def eqs same(1,2) .
  moreover have "reachable_or_cancelled ?m"
    using m(7) same(4) unfolding reachable_or_cancelled_def eqs same(1) by blast
  ultimately show ?thesis using m(2) by (simp only: mgr_inv_def eqs)
qed

subsection \<open>Preservation\<close>

lemma inv_drop_keys:
  assumes "mgr_inv m"
    and "\<And>k r. (k, r) \<in> set (jobs m) \<Longrightarrow> P (k, r) \<or> terminal (status (heap m ! r)) \<or> cancelled (heap m ! r)"
  shows "mgr_inv (m\<lparr>jobs := filter P (jobs m)\<rparr>)"
proof -
  note m = inv_part [OF assms(1)]
  have "refs_ok (m\<lparr>jobs := filter P (jobs m)\<rparr>)"
    using m(1) by (auto simp: refs_ok_def distinct_map_filter)
  moreover have "reachable_or_cancelled (m\<lparr>jobs := filter P (jobs m)\<rparr>)"
    using m(7) assms(2) by (fastforce simp: reachable_or_cancelled_def)
  ultimately show ?thesis using m(2-6)
    by (simp add: mgr_inv_def counted_def bounded_def states_ok_def settled_def)
qed

lemma delete_as_filter:
  "snd (delete jid m) = (case get jid m of
     None \<Rightarrow> m
   | Some r \<Rightarrow> (let m1 = update_job r (\<lambda>j. j\<lparr>cancelled := True\<rparr>) m
                in m1\<lparr>jobs := filter (\<lambda>(k, r). k \<noteq> jid) (jobs m1)\<rparr>))"
  by (cases "map_of (jobs m) jid")
    (simp_all add: delete_def get_def Let_def update_job_def AList.delete_eq eq_commute [of jid])

lemma inv_delete: "mgr_inv m \<Longrightarrow> mgr_inv (snd (delete jid m))"
proof (cases "get jid m")
  case (Some r)
  assume m: "mgr_inv m"
  let ?m = "update_job r (\<lambda>j. j\<lparr>cancelled := True\<rparr>) m"
  have "mgr_inv ?m" by (rule inv_update_job [OF m]) simp_all
  moreover have "cancelled (heap ?m ! r')" if "(jid, r') \<in> set (jobs m)" for r'
    using inv_part(1) [OF m] that Some by (auto simp: refs_ok_def get_def update_job_def)
  ultimately have "mgr_inv (?m\<lparr>jobs := filter (\<lambda>(k, r). k \<noteq> jid) (jobs ?m)\<rparr>)"
    by (intro inv_drop_keys) (auto simp: update_job_def)
  then show ?thesis by (simp add: delete_as_filter Some Let_def)
qed (simp add: delete_as_filter)

lemma fold_delete: "fold AList.delete ks al = filter (\<lambda>(k, r). k \<notin> set ks) al"
  by (induction ks arbitrary: al) (auto simp: AList.delete_eq intro!: filter_cong)

lemma sweep_as_filter:
  assumes "distinct (map fst (jobs m))"
  shows "jobs (snd (sweep now m)) = filter (\<lambda>(k, r). \<not> expired now (ttl m) (heap m ! r)) (jobs m)"
    and "snd (sweep now m) = m\<lparr>jobs := jobs (snd (sweep now m))\<rparr>"
    and "fst (sweep now m) = int (length (filter (\<lambda>(k, r). expired now (ttl m) (heap m ! r)) (jobs m)))"
proof -
  let ?gone = "map fst (filter (\<lambda>(k, r). expired now (ttl m) (heap m ! r)) (jobs m))"
  have gone: "k \<in> set ?gone \<longleftrightarrow> expired now (ttl m) (heap m ! r)" if "(k, r) \<in> set (jobs m)" for k r
  proof -
    have "k \<in> set ?gone \<longleftrightarrow> (\<exists>r'. (k, r') \<in> set (jobs m) \<and> expired now (ttl m) (heap m ! r'))"
      by (force simp: image_iff)
    then show ?thesis using that eq_key_imp_eq_value [OF assms] by blast
  qed
  have "filter (\<lambda>(k, r). k \<notin> set ?gone) (jobs m) =
      filter (\<lambda>(k, r). \<not> expired now (ttl m) (heap m ! r)) (jobs m)"
  proof (rule filter_cong [OF refl])
    fix x assume x: "x \<in> set (jobs m)"
    obtain k r where kr: "x = (k, r)" by force
    show "(case x of (k, r) \<Rightarrow> k \<notin> set ?gone) = (case x of (k, r) \<Rightarrow> \<not> expired now (ttl m) (heap m ! r))"
      unfolding kr prod.case gone [OF x [unfolded kr]] ..
  qed
  then show "jobs (snd (sweep now m)) = filter (\<lambda>(k, r). \<not> expired now (ttl m) (heap m ! r)) (jobs m)"
    unfolding sweep_def Let_def fold_delete by simp
qed (simp_all add: sweep_def Let_def)

lemma inv_sweep: "mgr_inv m \<Longrightarrow> mgr_inv (snd (sweep now m))"
proof -
  assume m: "mgr_inv m"
  then have d: "distinct (map fst (jobs m))" by (simp add: inv_parts)
  have "mgr_inv (m\<lparr>jobs := filter (\<lambda>(k, r). \<not> expired now (ttl m) (heap m ! r)) (jobs m)\<rparr>)"
    by (rule inv_drop_keys [OF m]) (auto simp: expired_def)
  then show ?thesis using sweep_as_filter(1,2) [OF d] by metis
qed

lemma submit_locked_cases:
  "submit_locked uuid created now m = (NotRunning r, m') \<longleftrightarrow>
     \<not> is_running m \<and> r = length (heap m) \<and>
     m' = m\<lparr>heap := heap m @ [(new_job uuid created)\<lparr>finished_at := Some now,
       job_error := Some NotAccepted, status := FAILED\<rparr>]\<rparr>"
  "submit_locked uuid created now m = (Full e, m') \<longleftrightarrow>
     is_running m \<and> 0 < max_queue m \<and> max_queue m \<le> pending m \<and>
     e = QueueFull (pending m) (max_queue m) \<and> m' = m"
  "submit_locked uuid created now m = (Accepted r, m') \<longleftrightarrow>
     is_running m \<and> (0 < max_queue m \<longrightarrow> pending m < max_queue m) \<and> r = length (heap m) \<and>
     m' = m\<lparr>heap := heap m @ [new_job uuid created], pending := pending m + 1,
       jobs := AList.update uuid r (jobs m)\<rparr>"
  by (auto simp: submit_locked_def Let_def)

text \<open>Allocating a job leaves the others alone.\<close>

lemma worker_ok_append:
  "set (busy w) \<subseteq> {..<length h} \<Longrightarrow> worker_ok (h @ x) w = worker_ok h w"
  by (cases w) (simp_all add: nth_append)

lemma inv_submit_refuse:
  assumes "mgr_inv m" and "submit_locked uuid created now m = (NotRunning r, m')"
  shows "mgr_inv m'"
proof -
  note m = inv_part [OF assms(1)]
  note m' = assms(2) [unfolded submit_locked_cases]
  have held: "\<forall>w\<in>set (workers m). set (busy w) \<subseteq> {..<length (heap m)}" "\<forall>r\<in>set (backlog m). r < length (heap m)"
    using m(1) by (auto simp: refs_ok_def owned_def held_def)
  have "refs_ok m'" using m(1) m' by (auto simp: refs_ok_def nth_append)
  moreover have "states_ok m'"
    using m(5) m' held by (auto simp: states_ok_def nth_append worker_ok_append)
  moreover have "settled m'" using m(6) m' by (auto simp: settled_def nth_append less_Suc_eq)
  moreover have "reachable_or_cancelled m'"
    using m(7) m' by (auto simp: reachable_or_cancelled_def nth_append less_Suc_eq)
  ultimately show ?thesis using m(2-4) m' by (simp add: mgr_inv_def counted_def bounded_def)
qed

lemma inv_submit_accept:
  assumes "mgr_inv m" and fresh: "uuid \<notin> job_id ` set (heap m)"
    and "submit_locked uuid created now m = (Accepted r, m')"
  shows "mgr_inv (m'\<lparr>putting := putting m' @ [(r, fn)]\<rparr>)" (is "mgr_inv ?m")
proof -
  note m = inv_part [OF assms(1)]
  note m' = assms(3) [unfolded submit_locked_cases]
  have held: "\<forall>w\<in>set (workers m). set (busy w) \<subseteq> {..<length (heap m)}" "\<forall>r\<in>set (backlog m). r < length (heap m)"
    and old: "\<forall>(k, r)\<in>set (jobs m). r < length (heap m) \<and> job_id (heap m ! r) = k"
    using m(1) by (auto simp: refs_ok_def owned_def held_def)
  have new: "uuid \<notin> fst ` set (jobs m)"
  proof
    assume "uuid \<in> fst ` set (jobs m)"
    then obtain r' where "(uuid, r') \<in> set (jobs m)" by auto
    then have "r' < length (heap m)" "job_id (heap m ! r') = uuid" using old by auto
    then show False using fresh nth_mem by blast
  qed
  then have up: "AList.update uuid r (jobs m) = jobs m @ [(uuid, r)]"
    by (rule update_fresh)
  have own: "set (owned ?m) = insert r (set (owned m))" "set (backlog ?m) = insert r (set (backlog m))"
    "distinct (owned ?m) \<longleftrightarrow> r \<notin> set (owned m) \<and> distinct (owned m)"
    "length (backlog ?m) = Suc (length (backlog m))"
    using m' by (auto simp: owned_def backlog_def)
  have m'': "heap ?m = heap m @ [new_job uuid created]" "jobs ?m = jobs m @ [(uuid, r)]"
    "workers ?m = workers m" "pending ?m = pending m + 1" "max_queue ?m = max_queue m"
    "shut ?m = shut m" "is_running ?m = is_running m"
    and r: "r = length (heap m)"
    using m' up by simp_all
  have "refs_ok ?m"
    using m(1) new r unfolding refs_ok_def own m'' by (auto simp: nth_append new_job_def)
  moreover have "distinct (owned ?m)"
    using m(1,2) r unfolding own(3) refs_ok_def by auto
  moreover have "counted ?m" using m(3) unfolding counted_def own m'' by simp
  moreover have "bounded ?m" using m' unfolding bounded_def m'' by auto
  moreover have "states_ok ?m"
    using m(5) held r unfolding states_ok_def own m''
    by (auto simp: nth_append worker_ok_append waiting_def new_job_def)
  moreover have "settled ?m"
    using m(6) r unfolding settled_def own m'' by (auto simp: nth_append less_Suc_eq)
  moreover have "reachable_or_cancelled ?m"
    using m(7) m' r unfolding reachable_or_cancelled_def m'' by (auto simp: nth_append less_Suc_eq)
  ultimately show ?thesis by (simp add: mgr_inv_def)
qed

lemma inv_put_sentinel:
  assumes "mgr_inv m"
  shows "mgr_inv (put None m)"
proof -
  have own: "owned (put None m) = owned m" "backlog (put None m) = backlog m"
    by (simp_all add: owned_def backlog_def put_def)
  have m'': "heap (put None m) = heap m" "jobs (put None m) = jobs m" "workers (put None m) = workers m"
    "pending (put None m) = pending m" "max_queue (put None m) = max_queue m"
    "shut (put None m) = shut m" "is_running (put None m) = is_running m"
    by (simp_all add: put_def)
  show ?thesis using inv_part [OF assms] unfolding inv_parts own m'' by simp
qed

lemma inv_put:
  assumes "mgr_inv m" and "putting m = xs @ p # ys"
  shows "mgr_inv (put (Some p) (m\<lparr>putting := xs @ ys\<rparr>))" (is "mgr_inv ?m")
proof -
  note m = inv_part [OF assms(1)]
  have own: "set (owned ?m) = set (owned m)" "set (backlog ?m) = set (backlog m)"
    "distinct (owned ?m) \<longleftrightarrow> distinct (owned m)" "length (backlog ?m) = length (backlog m)"
    using assms(2) by (cases p; auto simp: owned_def backlog_def put_def)+
  have m'': "heap ?m = heap m" "jobs ?m = jobs m" "workers ?m = workers m" "pending ?m = pending m"
    "max_queue ?m = max_queue m" "shut ?m = shut m" "is_running ?m = is_running m"
    by (simp_all add: put_def)
  show ?thesis
    using m unfolding inv_parts own m'' by simp
qed

lemma held_split [simp]: "held (xs @ w # ys) = held xs @ busy w @ held ys"
  by (simp add: held_def)

lemma worker_ok_update: "r \<notin> set (busy w) \<Longrightarrow> worker_ok (h[r := x]) w = worker_ok h w"
  by (cases w) (simp_all add: waiting_def settling_def)

lemma busy_held: "w \<in> set ws \<Longrightarrow> set (busy w) \<subseteq> set (held ws)"
  by (auto simp: held_def)

text \<open>The common shape of a worker's step on the job it holds: the worker moves on, the job changes,
  and either the worker keeps the job or the job is finished.\<close>

lemma inv_worker_update:
  assumes "mgr_inv m" and ws: "workers m = xs @ w # ys" and i: "i = length xs" and w: "busy w = [r]"
    and f: "job_id (f (heap m ! r)) = job_id (heap m ! r)"
      "cancelled (heap m ! r) \<Longrightarrow> cancelled (f (heap m ! r))"
      "terminal (status (heap m ! r)) \<Longrightarrow> terminal (status (f (heap m ! r)))"
    and taken: "\<not> is_taken w" "\<not> is_taken w'"
    and ok: "\<And>h. r < length h \<Longrightarrow> h ! r = f (heap m ! r) \<Longrightarrow> worker_ok h w'"
    and keep: "busy w' = [r] \<or>
      (busy w' = [] \<and> terminal (status (f (heap m ! r))) \<and> finished_at (f (heap m ! r)) \<noteq> None)"
  shows "mgr_inv (set_worker i w' (update_job r f m))" (is "mgr_inv ?m")
proof -
  note m = inv_part [OF assms(1)]
  let ?j = "f (heap m ! r)"
  have m'': "heap ?m = (heap m)[r := ?j]" "jobs ?m = jobs m" "workers ?m = xs @ w' # ys"
    "pending ?m = pending m" "max_queue ?m = max_queue m" "shut ?m = shut m"
    "is_running ?m = is_running m" "backlog ?m = backlog m"
    "owned ?m = backlog m @ held xs @ busy w' @ held ys"
    by (simp_all add: set_worker_def update_job_def ws i owned_def)
  have own: "owned m = backlog m @ held xs @ [r] @ held ys" using ws w by (simp add: owned_def)
  have r: "r < length (heap m)" using m(1) own by (simp add: refs_ok_def)
  have out: "r \<notin> set (backlog m)" "r \<notin> set (held xs)" "r \<notin> set (held ys)"
    using m(2) own by auto
  have j: "(heap m)[r := ?j] ! k = (if k = r then ?j else heap m ! k)" for k
    using r by (simp add: nth_list_update)
  have others: "worker_ok ((heap m)[r := ?j]) x = worker_ok (heap m) x" if "x \<in> set xs \<union> set ys" for x
    using that out busy_held by (intro worker_ok_update) blast
  have "refs_ok ?m"
    using m(1) keep unfolding refs_ok_def m'' own by (auto simp: j f(1))
  moreover have "distinct (owned ?m)"
    using m(2) keep unfolding m'' own by auto
  moreover have "counted ?m" using m(3) taken unfolding counted_def m'' ws by simp
  moreover have "bounded ?m" using m(4) unfolding bounded_def m'' .
  moreover have "states_ok ?m"
    using m(5) out r ok [of "(heap m)[r := ?j]"] unfolding states_ok_def m'' ws
    by (auto simp: j others)
  moreover have "settled ?m"
    using m(6) keep unfolding settled_def m'' own by (auto simp: j)
  moreover have "reachable_or_cancelled ?m"
    using m(7) f unfolding reachable_or_cancelled_def m'' by (auto simp: j)
  ultimately show ?thesis by (simp add: mgr_inv_def)
qed

lemma inv_take:
  assumes "mgr_inv m" and "worker_take i m = Some m'"
  shows "mgr_inv m'"
proof -
  note m = inv_part [OF assms(1)]
  have i: "i < length (workers m)" "workers m ! i = WGet" using assms(2) by (simp_all add: worker_take_def split: if_splits)
  then obtain xs ys where ws: "workers m = xs @ WGet # ys" "i = length xs" using worker_split by metis
  obtain item rest where q: "queue m = item # rest"
    and m': "m' = set_worker i (case item of None \<Rightarrow> WDone | Some (r, fn) \<Rightarrow> WTaken r fn) (m\<lparr>queue := rest\<rparr>)"
    using assms(2) i by (auto simp: worker_take_def split: list.splits)
  let ?w = "case item of None \<Rightarrow> WDone | Some (r, fn) \<Rightarrow> WTaken r fn"
  have m'': "heap m' = heap m" "jobs m' = jobs m" "workers m' = xs @ ?w # ys"
    "pending m' = pending m" "max_queue m' = max_queue m" "shut m' = shut m" "is_running m' = is_running m"
    by (simp_all add: m' set_worker_def ws)
  have own: "set (owned m') = set (owned m)" "distinct (owned m') \<longleftrightarrow> distinct (owned m)"
    "set (backlog m') \<subseteq> set (backlog m)"
    "length (backlog m) + length (filter is_taken (workers m)) = length (backlog m') + length (filter is_taken (workers m'))"
    by (cases item; auto simp: m' set_worker_def owned_def backlog_def q ws)+
  have "waiting (heap m ! r)" if "item = Some (r, fn)" for r fn
    using m(5) that by (simp add: states_ok_def backlog_def q)
  then have "worker_ok (heap m) ?w" by (auto split: option.split)
  then have "states_ok m'" using m(5) own(3) unfolding states_ok_def m'' ws by auto
  moreover have "counted m'" using m(3) own(4) unfolding counted_def m''(4) by simp
  ultimately show ?thesis
    using m(1,2,4,6,7)
    unfolding mgr_inv_def refs_ok_def bounded_def settled_def reachable_or_cancelled_def own m'' by blast
qed

lemma inv_uncount:
  assumes "mgr_inv m" and "worker_uncount i m = Some m'"
  shows "mgr_inv m'"
proof -
  note m = inv_part [OF assms(1)]
  obtain r fn where i: "i < length (workers m)" "workers m ! i = WTaken r fn"
    and m': "m' = set_worker i (WClaim r fn) (m\<lparr>pending := pending m - 1\<rparr>)"
    using assms(2) by (auto simp: worker_uncount_def split: if_splits worker.splits)
  then obtain xs ys where ws: "workers m = xs @ WTaken r fn # ys" "i = length xs" using worker_split by metis
  have m'': "heap m' = heap m" "jobs m' = jobs m" "workers m' = xs @ WClaim r fn # ys"
    "pending m' = pending m - 1" "max_queue m' = max_queue m" "shut m' = shut m" "is_running m' = is_running m"
    "backlog m' = backlog m" "owned m' = owned m"
    by (simp_all add: m' set_worker_def ws owned_def backlog_def)
  show ?thesis using m unfolding inv_parts m'' ws by auto
qed

lemma settling_refused: "waiting j \<Longrightarrow> cancelled j \<Longrightarrow> settling j (refused_writes now)"
  by (simp add: settling_def waiting_def refused_writes_def)

lemma settling_terminal:
  "status j = RUNNING \<Longrightarrow> settling j (terminal_writes now res)"
  by (cases "(now, res)" rule: terminal_writes.cases) (simp_all add: settling_def)

lemma waiting_open: "waiting j \<Longrightarrow> \<not> terminal (status j)"
  by (simp add: waiting_def)

lemma inv_claim:
  assumes "mgr_inv m" and "worker_claim now i m = Some m'"
  shows "mgr_inv m'"
proof -
  note m = inv_part [OF assms(1)]
  obtain r fn where i: "i < length (workers m)" "workers m ! i = WClaim r fn"
    using assms(2) by (auto simp: worker_claim_def split: if_splits worker.splits)
  then obtain xs ys where ws: "workers m = xs @ WClaim r fn # ys" "i = length xs" using worker_split by metis
  have j: "waiting (heap m ! r)" using m(5) ws by (simp add: states_ok_def)
  show ?thesis
  proof (cases "cancelled (heap m ! r)")
    case True
    then have "m' = set_worker i (WWrite r (refused_writes now) False) (update_job r (\<lambda>j. j) m)"
      using assms(2) i by (simp add: worker_claim_def claim_def update_job_def)
    moreover have "mgr_inv (set_worker i (WWrite r (refused_writes now) False) (update_job r (\<lambda>j. j) m))"
      using j True by (intro inv_worker_update [OF assms(1) ws]) (auto simp: settling_refused)
    ultimately show ?thesis by simp
  next
    case False
    then have "m' = set_worker i (WRun r fn) (update_job r (\<lambda>j. j\<lparr>status := RUNNING\<rparr>) m)"
      using assms(2) i by (simp add: worker_claim_def claim_def)
    moreover have "mgr_inv (set_worker i (WRun r fn) (update_job r (\<lambda>j. j\<lparr>status := RUNNING\<rparr>) m))"
      using j by (intro inv_worker_update [OF assms(1) ws]) (auto simp: waiting_def)
    ultimately show ?thesis by simp
  qed
qed

lemma report_keeps:
  "is_report w \<Longrightarrow> status (write_job w j) = status j \<and> finished_at (write_job w j) = finished_at j \<and>
     job_id (write_job w j) = job_id j \<and> cancelled (write_job w j) = cancelled j \<and>
     job_error (write_job w j) = job_error j"
  by (cases w) simp_all

lemma inv_report:
  assumes "mgr_inv m" and "worker_report i w m = Some m'"
  shows "mgr_inv m'"
proof -
  obtain r where "is_report w" "m' = update_job r (write_job w) m"
    using assms(2) by (auto simp: worker_report_def split: if_splits worker.splits)
  then show ?thesis using report_keeps by (auto intro!: inv_update_job [OF assms(1)])
qed

lemma inv_return:
  assumes "mgr_inv m" and "worker_return now res i m = Some m'"
  shows "mgr_inv m'"
proof -
  obtain r fn where i: "i < length (workers m)" "workers m ! i = WRun r fn"
    and m': "m' = set_worker i (WWrite r (terminal_writes now res) (kills_thread res)) m"
    using assms(2) by (auto simp: worker_return_def split: if_splits worker.splits)
  then obtain xs ys where ws: "workers m = xs @ WRun r fn # ys" "i = length xs" using worker_split by metis
  have j: "status (heap m ! r) = RUNNING" using inv_part(5) [OF assms(1)] ws by (simp add: states_ok_def)
  have "mgr_inv (set_worker i (WWrite r (terminal_writes now res) (kills_thread res)) (update_job r (\<lambda>j. j) m))"
    using j by (intro inv_worker_update [OF assms(1) ws]) (auto simp: settling_terminal)
  then show ?thesis by (simp add: m' update_job_def)
qed

lemma settling_step:
  assumes "settling j (w # ws)"
  shows "ws \<noteq> [] \<Longrightarrow> settling (write_job w j) ws"
    and "ws = [] \<Longrightarrow> terminal (status (write_job w j)) \<and> finished_at (write_job w j) \<noteq> None"
    and "job_id (write_job w j) = job_id j" "cancelled (write_job w j) = cancelled j"
  using assms by (cases w; auto simp: settling_def)+

lemma inv_write:
  assumes "mgr_inv m" and "worker_write i m = Some m'"
  shows "mgr_inv m'"
proof -
  obtain r w ws d where i: "i < length (workers m)" "workers m ! i = WWrite r (w # ws) d"
    and m': "m' = set_worker i (if ws \<noteq> [] then WWrite r ws d else if d then WDone else WGet)
        (update_job r (write_job w) m)"
    using assms(2) by (auto simp: worker_write_def split: if_splits worker.splits list.splits)
  then obtain xs ys where sp: "workers m = xs @ WWrite r (w # ws) d # ys" "i = length xs"
    using worker_split by metis
  have j: "settling (heap m ! r) (w # ws)" using inv_part(5) [OF assms(1)] sp by (simp add: states_ok_def)
  show ?thesis unfolding m'
    using settling_step [OF j] j
    by (intro inv_worker_update [OF assms(1) sp]) (auto simp: settling_def [of _ "w # ws"])
qed

lemma inv_cancel_next:
  assumes "mgr_inv m" and "shut m = Cancelling (r # rs)"
  shows "mgr_inv (update_job r (\<lambda>j. j\<lparr>cancelled := True\<rparr>) (m\<lparr>shut := Cancelling rs\<rparr>))"
proof -
  let ?m = "update_job r (\<lambda>j. j\<lparr>cancelled := True\<rparr>) m"
  have "mgr_inv ?m" by (rule inv_update_job [OF assms(1)]) simp_all
  note m = inv_part [OF this]
  have r: "r < length (heap m)" using inv_part(1) [OF assms(1)] assms(2) by (simp add: refs_ok_def)
  have s: "shut ?m = Cancelling (r # rs)" "cancelled (heap ?m ! r)"
    using assms(2) r by (simp_all add: update_job_def)
  have "reachable_or_cancelled (?m\<lparr>shut := Cancelling rs\<rparr>)"
    using m(7) s by (auto simp: reachable_or_cancelled_def)
  moreover have "refs_ok (?m\<lparr>shut := Cancelling rs\<rparr>)" using m(1) s(1) by (auto simp: refs_ok_def)
  moreover have "counted (?m\<lparr>shut := Cancelling rs\<rparr>)" "bounded (?m\<lparr>shut := Cancelling rs\<rparr>)"
    "states_ok (?m\<lparr>shut := Cancelling rs\<rparr>)" "settled (?m\<lparr>shut := Cancelling rs\<rparr>)"
    using m(3-6) unfolding counted_def bounded_def states_ok_def settled_def by simp_all
  ultimately have "mgr_inv (?m\<lparr>shut := Cancelling rs\<rparr>)" using m(2) by (simp add: mgr_inv_def)
  moreover have "update_job r (\<lambda>j. j\<lparr>cancelled := True\<rparr>) (m\<lparr>shut := Cancelling rs\<rparr>) =
      ?m\<lparr>shut := Cancelling rs\<rparr>" by (simp add: update_job_def)
  ultimately show ?thesis by simp
qed

lemma inv_change_shut:
  assumes "mgr_inv m" and "cancel_list (shut m) = []" and "cancel_list s = []"
  shows "mgr_inv (m\<lparr>shut := s\<rparr>)" and "mgr_inv (m\<lparr>shut := s, threads := ts\<rparr>)"
  using inv_part [OF assms(1)] assms(2,3) unfolding inv_parts by simp_all

lemma inv_shutdown_step:
  assumes "mgr_inv m" and "shutdown_step m = Some m'"
  shows "mgr_inv m'"
proof (cases "shut m")
  case (Cancelling rs)
  then show ?thesis using assms inv_cancel_next inv_change_shut(1) [OF assms(1)]
    by (cases rs) (auto simp: shutdown_step_def)
next
  case (Sentinels n)
  then show ?thesis using assms
    by (cases n) (auto simp: shutdown_step_def intro!: inv_put_sentinel inv_change_shut(1))
next
  case Joining
  then show ?thesis using assms inv_change_shut(2) [OF assms(1)] by (auto simp: shutdown_step_def)
qed (use assms in \<open>simp add: shutdown_step_def\<close>)

lemmas inv_steps = inv_start inv_shutdown_begin inv_shutdown_step inv_submit_accept inv_submit_refuse
  inv_put inv_delete inv_sweep inv_take inv_uncount inv_claim inv_report inv_return inv_write

lemma mgr_inv_step: "step m m' \<Longrightarrow> mgr_inv m \<Longrightarrow> mgr_inv m'"
  by (induction rule: step.induct) (rule inv_steps; assumption)+

definition initial_manager :: "'f mgr \<Rightarrow> bool" where
  "initial_manager m \<longleftrightarrow> (\<exists>n t q. m = init_manager n t q)"

interpretation mgr_sys: invariant_system initial_manager step mgr_inv
  by unfold_locales (auto simp: initial_manager_def mgr_inv_init intro: mgr_inv_step)

definition reachable :: "'f mgr \<Rightarrow> bool" where
  "reachable m \<longleftrightarrow> (\<exists>n t q. step\<^sup>*\<^sup>* (init_manager n t q) m)"

lemma reachable_inv: "reachable m \<Longrightarrow> mgr_inv m"
  by (auto simp: reachable_def intro: mgr_sys.inv_run mgr_inv_init)

section \<open>How a job evolves\<close>

text \<open>What any step may do to a job: its identity stays, a cancel event stays set, a final state is
  frozen but for the event, and the status moves along the life cycle: to running only when not
  cancelled, from queued directly only to cancelled, and then only when it has been cancelled.\<close>

definition evolves :: "job \<Rightarrow> job \<Rightarrow> bool" where
  "evolves j j' \<longleftrightarrow> job_id j' = job_id j \<and> created_at j' = created_at j \<and> (cancelled j \<longrightarrow> cancelled j') \<and>
     (terminal (status j) \<longrightarrow> j' = j\<lparr>cancelled := cancelled j'\<rparr>) \<and>
     (status j' = status j \<or>
      status j = QUEUED \<and> status j' = RUNNING \<and> \<not> cancelled j \<or>
      status j = QUEUED \<and> status j' = CANCELLED \<and> cancelled j \<or>
      status j = RUNNING \<and> terminal (status j'))"

lemma evolves_refl [simp]: "evolves j j"
  by (simp add: evolves_def)

lemma evolves_cancel [simp]: "evolves j (j\<lparr>cancelled := True\<rparr>)"
  by (simp add: evolves_def)

definition heap_evolves :: "job list \<Rightarrow> job list \<Rightarrow> bool" where
  "heap_evolves h h' \<longleftrightarrow> length h \<le> length h' \<and> (\<forall>r<length h. evolves (h ! r) (h' ! r))"

lemma heap_evolves_refl [simp]: "heap_evolves h h"
  by (simp add: heap_evolves_def)

lemma heap_evolves_snoc [simp]: "heap_evolves h (h @ [j])"
  by (simp add: heap_evolves_def nth_append)

lemma heap_evolves_update:
  "(r < length h \<Longrightarrow> evolves (h ! r) j) \<Longrightarrow> heap_evolves h (h[r := j])"
  by (cases "r < length h") (auto simp: heap_evolves_def nth_list_update list_update_beyond)

lemma heap_update_job [simp]: "heap (update_job r f m) = (heap m)[r := f (heap m ! r)]"
  by (simp add: update_job_def)

lemma heap_set_worker [simp]: "heap (set_worker i w m) = heap m"
  by (simp add: set_worker_def)

lemma worker_invariant:
  "mgr_inv m \<Longrightarrow> i < length (workers m) \<Longrightarrow> worker_ok (heap m) (workers m ! i)"
  by (simp add: inv_parts)

lemma evolves_report:
  assumes "is_report w" and "\<not> terminal (status j)"
  shows "evolves j (write_job w j)"
  using assms by (cases w) (simp_all add: evolves_def)

lemma evolves_settling: "settling j (w # ws) \<Longrightarrow> evolves j (write_job w j)"
  by (cases "status j"; cases w; cases "ws = []"; simp add: settling_def evolves_def; auto)

lemma step_evolves:
  assumes "step m m'" and inv: "mgr_inv m"
  shows "heap_evolves (heap m) (heap m')"
  using assms(1)
proof cases
  case step_shutting
  then show ?thesis
    by (auto simp: shutdown_step_def put_def intro!: heap_evolves_update
        split: shutdown_pc.splits list.splits nat.splits)
next
  case step_delete
  then show ?thesis by (auto simp: delete_def intro!: heap_evolves_update split: option.split)
next
  case (step_take i)
  then show ?thesis by (auto simp: worker_take_def split: if_splits list.splits)
next
  case (step_uncount i)
  then show ?thesis by (auto simp: worker_uncount_def split: if_splits worker.splits)
next
  case (step_claim now i)
  then obtain r fn where "i < length (workers m)" "workers m ! i = WClaim r fn"
    by (auto simp: worker_claim_def split: if_splits worker.splits)
  then show ?thesis using step_claim worker_invariant [OF inv, of i]
    by (auto simp: worker_claim_def claim_def waiting_def evolves_def intro!: heap_evolves_update
        split: if_splits)
next
  case (step_report i w)
  then obtain r fn where "i < length (workers m)" "workers m ! i = WRun r fn" "is_report w"
    by (auto simp: worker_report_def split: if_splits worker.splits)
  then show ?thesis using step_report worker_invariant [OF inv, of i]
    by (auto simp: worker_report_def intro!: heap_evolves_update evolves_report)
next
  case (step_return now res i)
  then show ?thesis by (auto simp: worker_return_def split: if_splits worker.splits)
next
  case (step_write i)
  then obtain r w ws d where "i < length (workers m)" "workers m ! i = WWrite r (w # ws) d"
    by (auto simp: worker_write_def split: if_splits worker.splits list.splits)
  then show ?thesis using step_write worker_invariant [OF inv, of i]
    by (auto simp: worker_write_def intro!: heap_evolves_update evolves_settling)
qed (auto simp: start_manager_def shutdown_begin_def submit_locked_cases put_def sweep_def Let_def)

lemma run_evolves:
  assumes "step\<^sup>*\<^sup>* m m'" and "mgr_inv m"
    and refl: "\<And>j. R j j" and trans: "\<And>i j k. R i j \<Longrightarrow> evolves j k \<Longrightarrow> R i k"
    and "r < length (heap m)"
  shows "r < length (heap m') \<and> R (heap m ! r) (heap m' ! r)"
  using assms(1)
proof (induction rule: rtranclp_induct)
  case (step y z)
  have "mgr_inv y" using mgr_sys.inv_run [OF step.hyps(1) assms(2)] .
  then have "heap_evolves (heap y) (heap z)" by (rule step_evolves [OF step.hyps(2)])
  then show ?case using step.IH trans by (auto simp: heap_evolves_def)
qed (simp add: refl assms(5))

lemma evolves_status: "evolves j k \<Longrightarrow> status j \<le> status k"
  by (auto simp: evolves_def less_eq_jobstatus_def terminal_rank)

lemma evolves_frozen:
  assumes "evolves j k" and "j = i\<lparr>cancelled := cancelled j\<rparr>" and "terminal (status i)"
  shows "k = i\<lparr>cancelled := cancelled k\<rparr>"
proof -
  have "terminal (status j)" by (subst assms(2)) (simp add: assms(3))
  then have "k = j\<lparr>cancelled := cancelled k\<rparr>" using assms(1) by (simp add: evolves_def)
  also have "\<dots> = i\<lparr>cancelled := cancelled k\<rparr>" by (subst assms(2)) simp
  finally show ?thesis .
qed

lemma busy_single: "r \<in> set (busy w) \<Longrightarrow> busy w = [r]"
  by (cases w) simp_all

text \<open>A job in a final state has its finish time: in the queue it is not final, and a worker
  writes the finish time before the status.\<close>

lemma owned_not_terminal:
  assumes "mgr_inv m" and "r \<in> set (owned m)"
  shows "\<not> terminal (status (heap m ! r))"
proof -
  have s: "states_ok m" using inv_part(5) [OF assms(1)] .
  consider "r \<in> set (backlog m)" | w where "w \<in> set (workers m)" "r \<in> set (busy w)"
    using assms(2) by (auto simp: owned_def held_def)
  then show ?thesis
  proof cases
    case 2
    then have "worker_ok (heap m) w" "busy w = [r]" using s by (auto simp: states_ok_def dest: busy_single)
    then show ?thesis by (cases w) (auto simp: waiting_def settling_def)
  qed (use s in \<open>auto simp: states_ok_def waiting_def\<close>)
qed

lemma terminal_finished:
  "mgr_inv m \<Longrightarrow> r < length (heap m) \<Longrightarrow> terminal (status (heap m ! r)) \<Longrightarrow> finished_at (heap m ! r) \<noteq> None"
  using owned_not_terminal inv_part(6) unfolding settled_def by blast

text \<open>A submission without interference is one of the runs of the step relation.\<close>

lemma submit_is_steps:
  assumes "uuid \<notin> job_id ` set (heap m)" and "putting m = []"
    and "submit uuid created now fn m = (Inr r, m')"
  shows "step\<^sup>*\<^sup>* m m'"
proof (cases "submit_locked uuid created now m")
  case (Pair a m1)
  show ?thesis
  proof (cases a)
    case (NotRunning r')
    then show ?thesis using assms Pair by (auto simp: submit_def intro: step_submit_refuse)
  next
    case (Accepted r')
    let ?m = "m1\<lparr>putting := putting m1 @ [(r', fn)]\<rparr>"
    have p: "putting m1 = []" using Pair Accepted assms(2) by (auto simp: submit_locked_cases)
    have "step m ?m" using step_submit_accept [OF assms(1)] Pair Accepted by simp
    moreover have "step ?m (put (Some (r', fn)) (?m\<lparr>putting := [] @ []\<rparr>))"
      using p by (intro step_put) simp
    moreover have "put (Some (r', fn)) (?m\<lparr>putting := [] @ []\<rparr>) = m'"
      using assms(3) Pair Accepted p by (cases m1) (auto simp: submit_def)
    ultimately show ?thesis by (metis rtranclp.rtrancl_into_rtrancl rtranclp.rtrancl_refl)
  qed (use assms Pair in \<open>simp add: submit_def\<close>)
qed

end
