(* ===== verification/JobsProperties.thy ===== *)
theory JobsProperties
  imports JobsInvariant "HOL-Library.Multiset"
begin

text \<open>
  What the job store promises: the exact backlog counter, no start after a delete, the one-way life
  cycle, one owner per job, the guarantees of shutdown, sweep, submit and to_dict, and the
  termination and completeness of the workers' part, over the invariant of JobsInvariant.
\<close>

section \<open>A concrete run\<close>

lemma reachable_init: "reachable (init_manager n t q)"
  by (auto simp: reachable_def)

lemma reachable_step: "reachable m \<Longrightarrow> step m m' \<Longrightarrow> reachable m'"
  by (meson reachable_def rtranclp.rtrancl_into_rtrancl)

definition demo_started :: "nat mgr" where
  "demo_started = start_manager (init_manager 1 3600 2)"

definition demo_queued :: "nat mgr" where
  "demo_queued = snd (submit ''a'' 10 10 7 demo_started)"

definition demo_deleted :: "nat mgr" where
  "demo_deleted = snd (delete ''a'' demo_queued)"

definition demo_refused :: "nat mgr" where
  "demo_refused = the (worker_claim 11 0 (the (worker_uncount 0 (the (worker_take 0 demo_deleted)))))"

definition demo_down :: "nat mgr" where
  "demo_down = shutdown_begin (init_manager 1 3600 2)"

lemmas demo_defs = demo_started_def demo_queued_def demo_deleted_def demo_refused_def demo_down_def
  init_manager_def start_manager_def submit_def submit_locked_def put_def delete_def update_job_def
  set_worker_def worker_take_def worker_uncount_def worker_claim_def claim_def new_job_def
  refused_writes_def shutdown_begin_def

lemma reachable_demo:
  "reachable demo_started" "reachable demo_queued" "reachable demo_deleted" "reachable demo_down"
proof -
  show st: "reachable demo_started" unfolding demo_started_def
    by (rule reachable_step [OF reachable_init], rule step_start) (simp add: init_manager_def)
  have "step\<^sup>*\<^sup>* demo_started demo_queued"
    by (rule submit_is_steps [of "''a''" demo_started 10 10 7 0]) (simp_all add: demo_defs)
  then show q: "reachable demo_queued" using st by (meson reachable_def rtranclp_trans)
  show "reachable demo_deleted" unfolding demo_deleted_def by (rule reachable_step [OF q step_delete])
  show "reachable demo_down" unfolding demo_down_def
    by (rule reachable_step [OF reachable_init], rule step_shutdown) (simp add: init_manager_def)
qed

lemma demo_refused_run: "step\<^sup>*\<^sup>* demo_deleted demo_refused"
proof -
  let ?a = "the (worker_take 0 demo_deleted)" and ?b = "the (worker_uncount 0 (the (worker_take 0 demo_deleted)))"
  have "step demo_deleted ?a" by (rule step_take [of 0]) (simp add: demo_defs)
  moreover have "step ?a ?b" by (rule step_uncount [of 0]) (simp add: demo_defs)
  moreover have "step ?b demo_refused" by (rule step_claim [of 11 0]) (simp add: demo_defs)
  ultimately show ?thesis by (meson rtranclp.rtrancl_into_rtrancl rtranclp.rtrancl_refl)
qed

section \<open>The properties of the store\<close>

text \<open>C9. The backlog counter is exact and bounded: in every reachable state, under any interleaving of
  requests, workers, sweeps and shutdowns, it is the number of accepted jobs that no worker has
  counted off yet, all of those still in the backlog are queued, and it never exceeds a positive
  queue limit.\<close>

theorem backlog_counter_exact:
  assumes "reachable m"
  shows "pending m = int (length (backlog m) + length (filter is_taken (workers m))) \<and>
    (\<forall>r\<in>set (backlog m). status (heap m ! r) = QUEUED) \<and>
    (0 < max_queue m \<longrightarrow> pending m \<le> max_queue m)"
  using reachable_inv [OF assms] by (auto simp: inv_parts waiting_def)

theorem backlog_counter_exact_witness:
  "pending demo_queued = 1 \<and> pending demo_queued \<le> max_queue demo_queued"
  using backlog_counter_exact [OF reachable_demo(2)] by (simp add: demo_defs)

text \<open>C2. A job cancelled (deleted, or caught by a shutdown) while it is queued is never started:
  in every later state it is queued or cancelled, and no worker is inside its job function.\<close>

theorem deleted_while_queued_never_runs:
  assumes "reachable m" and "r < length (heap m)" and "cancelled (heap m ! r)"
    and "status (heap m ! r) = QUEUED" and "step\<^sup>*\<^sup>* m m'"
  shows "status (heap m' ! r) \<in> {QUEUED, CANCELLED} \<and> (\<forall>fn. WRun r fn \<notin> set (workers m'))"
proof -
  let ?P = "\<lambda>j. cancelled j \<and> (status j = QUEUED \<or> status j = CANCELLED)"
  note inv = reachable_inv [OF assms(1)]
  have "r < length (heap m') \<and> (?P (heap m ! r) \<longrightarrow> ?P (heap m' ! r))"
    by (rule run_evolves [OF assms(5) inv _ _ assms(2)]) (auto simp: evolves_def)
  then have p: "?P (heap m' ! r)" using assms(3,4) by simp
  have "mgr_inv m'" using mgr_sys.inv_run [OF assms(5) inv] .
  then have "status (heap m' ! r) = RUNNING" if "WRun r fn \<in> set (workers m')" for fn
    using that by (auto simp: inv_parts)
  then show ?thesis using p by auto
qed

theorem deleted_while_queued_never_runs_witness:
  "status (heap demo_refused ! 0) \<in> {QUEUED, CANCELLED} \<and> (\<forall>fn. WRun 0 fn \<notin> set (workers demo_refused))"
  by (rule deleted_while_queued_never_runs [OF reachable_demo(3) _ _ _ demo_refused_run])
    (simp_all add: demo_defs)

text \<open>C10. The life cycle is one way: from any reachable state on, a job keeps its id and creation time,
  its status only moves up the order queued, running, final; a job in a final state has its
  finish time and keeps status, times, error, progress and output for ever.\<close>

theorem job_life_cycle:
  assumes "reachable m" and "r < length (heap m)" and "step\<^sup>*\<^sup>* m m'"
  shows "job_id (heap m' ! r) = job_id (heap m ! r) \<and> created_at (heap m' ! r) = created_at (heap m ! r) \<and>
    status (heap m ! r) \<le> status (heap m' ! r) \<and>
    (terminal (status (heap m' ! r)) \<longrightarrow> finished_at (heap m' ! r) \<noteq> None) \<and>
    (terminal (status (heap m ! r)) \<longrightarrow>
       heap m' ! r = (heap m ! r)\<lparr>cancelled := cancelled (heap m' ! r)\<rparr>)"
proof -
  note inv = reachable_inv [OF assms(1)]
  have id: "r < length (heap m') \<and> job_id (heap m' ! r) = job_id (heap m ! r) \<and>
      created_at (heap m' ! r) = created_at (heap m ! r)"
    by (rule run_evolves [OF assms(3) inv _ _ assms(2)]) (auto simp: evolves_def)
  have up: "r < length (heap m') \<and> status (heap m ! r) \<le> status (heap m' ! r)"
    by (rule run_evolves [OF assms(3) inv _ _ assms(2)]) (auto dest: evolves_status order_trans)
  have frozen: "r < length (heap m') \<and> (terminal (status (heap m ! r)) \<longrightarrow>
      heap m' ! r = (heap m ! r)\<lparr>cancelled := cancelled (heap m' ! r)\<rparr>)"
    by (rule run_evolves [OF assms(3) inv _ _ assms(2)]) (auto dest: evolves_frozen)
  have "terminal (status (heap m' ! r)) \<longrightarrow> finished_at (heap m' ! r) \<noteq> None"
    using terminal_finished [OF mgr_sys.inv_run [OF assms(3) inv]] id by blast
  then show ?thesis using id up frozen by blast
qed

theorem job_life_cycle_witness:
  "job_id (heap demo_refused ! 0) = ''a'' \<and> status (heap demo_deleted ! 0) \<le> status (heap demo_refused ! 0)"
proof -
  have "0 < length (heap demo_deleted)" "job_id (heap demo_deleted ! 0) = ''a''" by (simp_all add: demo_defs)
  then show ?thesis using job_life_cycle [OF reachable_demo(3) _ demo_refused_run, of 0] by simp
qed

lemma distinct_concat_apart:
  assumes "distinct (concat xss)" and "i < j" and "j < length xss"
  shows "set (xss ! i) \<inter> set (xss ! j) = {}"
proof -
  have "xss = take i xss @ xss ! i # drop (Suc i) xss" using assms(2,3) by (intro id_take_nth_drop) simp
  then have "concat xss = concat (take i xss) @ xss ! i @ concat (drop (Suc i) xss)"
    by (metis concat_append concat.simps(2))
  then have "distinct (xss ! i @ concat (drop (Suc i) xss))"
    using assms(1) by simp
  moreover have "drop (Suc i) xss ! (j - Suc i) = xss ! j" "j - Suc i < length (drop (Suc i) xss)"
    using assms(2,3) by simp_all
  then have "xss ! j \<in> set (drop (Suc i) xss)" by (metis nth_mem)
  ultimately show ?thesis by auto
qed

text \<open>A worker has started a job: it is inside the job function, or writes the job's outcome.\<close>

fun inside :: "nat \<Rightarrow> 'f worker \<Rightarrow> bool" where
  "inside r (WRun q fn) \<longleftrightarrow> q = r"
| "inside r (WWrite q ws d) \<longleftrightarrow> q = r"
| "inside r _ \<longleftrightarrow> False"

lemma inside_busy: "inside r w \<Longrightarrow> r \<in> set (busy w)"
  by (cases w) simp_all

lemma running_inside:
  assumes "mgr_inv m" and "r < length (heap m)" and "status (heap m ! r) = RUNNING"
  shows "\<exists>i<length (workers m). inside r (workers m ! i)"
proof -
  note inv = inv_part [OF assms(1)]
  have "r \<in> set (owned m)" "r \<notin> set (backlog m)"
    using inv(5,6) assms(2,3) by (auto simp: settled_def states_ok_def waiting_def terminal_def)
  then obtain w where "w \<in> set (workers m)" "r \<in> set (busy w)" by (auto simp: owned_def held_def)
  then obtain i where i: "i < length (workers m)" "r \<in> set (busy (workers m ! i))"
    by (metis in_set_conv_nth)
  have "worker_ok (heap m) (workers m ! i)" using inv(5) i(1) by (simp add: states_ok_def)
  then have "inside r (workers m ! i)"
    using i(2) assms(3) by (cases "workers m ! i") (auto simp: waiting_def)
  then show ?thesis using i(1) by blast
qed

lemma inside_unique:
  assumes "mgr_inv m" and "i < length (workers m)" "inside r (workers m ! i)"
    and "j < length (workers m)" "inside r (workers m ! j)"
  shows "i = j"
proof -
  have "distinct (concat (map busy (workers m)))"
    using inv_part(2) [OF assms(1)] by (simp add: owned_def held_def)
  note apart = distinct_concat_apart [OF this]
  have "r \<in> set (busy (workers m ! i))" "r \<in> set (busy (workers m ! j))" using assms(3,5) inside_busy by blast+
  then show ?thesis using apart [of i j] apart [of j i] assms(2,4) by (cases i j rule: linorder_cases) auto
qed

text \<open>C8. No accepted job is lost or run twice: in every reachable state each unfinished job is
  waiting in exactly one place (the queue, a pending put, or one worker), a finished one nowhere,
  so no two workers hold the same job; every job whose status is running is inside exactly one
  worker (in its job function, or at the writes of its outcome), a job inside a job function is
  running, and so at most as many jobs run as workers are busy.\<close>

theorem every_job_owned_once:
  assumes "reachable m"
  shows "(\<forall>r<length (heap m). count (mset (owned m)) r = (if terminal (status (heap m ! r)) then 0 else 1)) \<and>
    (\<forall>r<length (heap m). status (heap m ! r) = RUNNING \<longrightarrow>
       (\<exists>!i. i < length (workers m) \<and>
          ((\<exists>fn. workers m ! i = WRun r fn) \<or> (\<exists>ws d. workers m ! i = WWrite r ws d)))) \<and>
    (\<forall>r fn. WRun r fn \<in> set (workers m) \<longrightarrow> status (heap m ! r) = RUNNING) \<and>
    card {r. r < length (heap m) \<and> status (heap m ! r) = RUNNING} \<le>
      length (filter (\<lambda>w. busy w \<noteq> []) (workers m))"
proof -
  note inv = reachable_inv [OF assms]
  note m = inv_part [OF inv]
  have own: "r \<in> set (owned m) \<longleftrightarrow> \<not> terminal (status (heap m ! r))" if "r < length (heap m)" for r
    using that owned_not_terminal [OF inv] m(6) by (auto simp: settled_def)
  have once: "count (mset (owned m)) r = (if r \<in> set (owned m) then 1 else 0)" for r
    using m(2) by (simp add: distinct_count_atmost_1)
  have ins: "inside r w \<longleftrightarrow> (\<exists>fn. w = WRun r fn) \<or> (\<exists>ws d. w = WWrite r ws d)" for r and w :: "'a worker"
    by (cases w) auto
  have one: "\<exists>!i. i < length (workers m) \<and> inside r (workers m ! i)"
    if "r < length (heap m)" "status (heap m ! r) = RUNNING" for r
    using running_inside [OF inv that] inside_unique [OF inv] by blast
  have runs: "status (heap m ! r) = RUNNING" if "WRun r fn \<in> set (workers m)" for r fn
    using that m(5) by (auto simp: states_ok_def)
  have run: "{r. r < length (heap m) \<and> status (heap m ! r) = RUNNING} \<subseteq> set (held (workers m))"
    using running_inside [OF inv] inside_busy by (fastforce simp: held_def)
  have len: "length (held ws) = length (filter (\<lambda>w. busy w \<noteq> []) ws)" for ws :: "'a worker list"
  proof (induction ws)
    case (Cons w ws)
    then show ?case by (cases w) (simp_all add: held_def)
  qed (simp add: held_def)
  have "card {r. r < length (heap m) \<and> status (heap m ! r) = RUNNING} \<le> length (held (workers m))"
    using card_mono [OF _ run] card_length le_trans by blast
  then show ?thesis using own once runs one unfolding ins len by simp
qed

theorem every_job_owned_once_witness:
  "count (mset (owned demo_queued)) 0 = 1"
proof -
  have "0 < length (heap demo_queued)" "status (heap demo_queued ! 0) = QUEUED" by (simp_all add: demo_defs)
  then show ?thesis using every_job_owned_once [OF reachable_demo(2)] by simp
qed

text \<open>C1. Shutdown leaves no child running unasked: once the cancelling phase of a shutdown is over
  (and until the manager is started again), every unfinished job that was ever accepted has its
  cancel event set, whatever submissions raced with the shutdown.\<close>

theorem shutdown_cancels_every_open_job:
  assumes "reachable m" and "\<not> is_running m" and "\<forall>rs. shut m \<noteq> Cancelling rs" and "r < length (heap m)"
  shows "terminal (status (heap m ! r)) \<or> cancelled (heap m ! r)"
proof -
  have "cancel_list (shut m) = []" using assms(3) by (cases "shut m") auto
  then show ?thesis
    using inv_part(7) [OF reachable_inv [OF assms(1)]] assms(2,4)
    by (auto simp: reachable_or_cancelled_def)
qed

definition demo_stopped :: "nat mgr" where
  "demo_stopped = the (shutdown_step (the (shutdown_step (shutdown_begin demo_queued))))"

lemma reachable_demo_stopped: "reachable demo_stopped"
proof -
  let ?a = "shutdown_begin demo_queued" and ?b = "the (shutdown_step (shutdown_begin demo_queued))"
  have "step demo_queued ?a" by (rule step_shutdown) (simp add: demo_defs)
  then have "reachable ?a" by (rule reachable_step [OF reachable_demo(2)])
  moreover have "step ?a ?b" by (rule step_shutting) (simp add: demo_defs shutdown_step_def)
  ultimately have "reachable ?b" by (rule reachable_step)
  moreover have "step ?b demo_stopped"
    by (rule step_shutting) (simp add: demo_defs demo_stopped_def shutdown_step_def)
  ultimately show ?thesis by (rule reachable_step)
qed

theorem shutdown_cancels_every_open_job_witness:
  "terminal (status (heap demo_stopped ! 0)) \<or> cancelled (heap demo_stopped ! 0)"
  by (rule shutdown_cancels_every_open_job [OF reachable_demo_stopped])
    (simp_all add: demo_stopped_def demo_defs shutdown_step_def)

text \<open>C32. The sweep evicts exactly the expired jobs: after it, an id is stored with the same job as
  before, unless that job is completed, failed or cancelled and has a finish time at least the TTL
  before the sweep's clock reading (as the rounded float difference of the two); nothing else
  changes, and the result counts the evictions.\<close>

theorem sweep_exact:
  assumes "reachable m" and "sweep now m = (n, m')"
  shows "get jid m' = (case get jid m of
      None \<Rightarrow> None
    | Some r \<Rightarrow>
        if status (heap m ! r) \<in> {COMPLETED, FAILED, CANCELLED} \<and>
           (\<exists>t. finished_at (heap m ! r) = Some t \<and>
              ((\<exists>age. round64 (now - t) = Fin age \<and> of_int (ttl m) \<le> age) \<or> round64 (now - t) = Inf False))
        then None else Some r) \<and>
    m' = m\<lparr>jobs := jobs m'\<rparr> \<and> n = int (length (jobs m)) - int (length (jobs m')) \<and>
    (\<forall>r. get jid m = Some r \<and> \<not> terminal (status (heap m ! r)) \<longrightarrow> get jid m' = Some r)"
proof -
  have d: "distinct (map fst (jobs m))" using reachable_inv [OF assms(1)] by (simp add: inv_parts)
  let ?P = "\<lambda>(k :: string, r). expired now (ttl m) (heap m ! r)"
  have j: "jobs m' = filter (\<lambda>(k, r). \<not> expired now (ttl m) (heap m ! r)) (jobs m)"
    "m' = m\<lparr>jobs := jobs m'\<rparr>" "n = int (length (filter ?P (jobs m)))"
    using sweep_as_filter [OF d, of now] assms(2) by simp_all
  have g: "get jid m' = (case get jid m of
      None \<Rightarrow> None
    | Some r \<Rightarrow> if expired now (ttl m) (heap m ! r) then None else Some r)"
    unfolding get_def j(1)
    by (subst map_of_filter_value [OF d]) (simp split: option.split)
  have ex: "expired now (ttl m) job \<longleftrightarrow> status job \<in> {COMPLETED, FAILED, CANCELLED} \<and>
      (\<exists>t. finished_at job = Some t \<and>
         ((\<exists>age. round64 (now - t) = Fin age \<and> of_int (ttl m) \<le> age) \<or> round64 (now - t) = Inf False))" for job
  proof (cases "finished_at job")
    case (Some t)
    then show ?thesis by (cases "round64 (now - t)") (auto simp: expired_def elapsed_def terminal_def)
  qed (simp add: expired_def)
  have "int (length (filter ?P (jobs m))) = int (length (jobs m)) - int (length (jobs m'))"
    using sum_length_filter_compl [of ?P "jobs m"] by (simp add: j(1) case_prod_unfold)
  then show ?thesis using g j(2,3) unfolding ex [symmetric] by (auto simp: expired_def)
qed

theorem sweep_exact_witness:
  "get ''a'' (snd (sweep 99999 demo_queued)) = Some 0"
proof -
  have "get ''a'' demo_queued = Some 0" "\<not> terminal (status (heap demo_queued ! 0))"
    by (simp_all add: demo_defs get_def)
  then show ?thesis
    using sweep_exact [OF reachable_demo(2) surjective_pairing, of "''a''" 99999] by blast
qed

text \<open>Submitting: a manager that is not running stores nothing and hands back a failed job with its
  finish time and the refusal message; a full backlog raises QueueFull and leaves the manager as
  it was; otherwise the new job, queued and fresh, is stored under its id, counted and put at
  the end of the queue.\<close>

theorem submit_branches:
  assumes "submit uuid created now fn m = (res, m')"
  shows "if \<not> is_running m then
      (\<exists>r. res = Inr r \<and> r = length (heap m) \<and> jobs m' = jobs m \<and> queue m' = queue m \<and>
        pending m' = pending m \<and> job_id (heap m' ! r) = uuid \<and> status (heap m' ! r) = FAILED \<and>
        finished_at (heap m' ! r) = Some now \<and> job_error (heap m' ! r) = Some NotAccepted)
    else if 0 < max_queue m \<and> max_queue m \<le> pending m then
      res = Inl (QueueFull (pending m) (max_queue m)) \<and> m' = m
    else (\<exists>r. res = Inr r \<and> get uuid m' = Some r \<and> r = length (heap m) \<and>
        heap m' = heap m @ [new_job uuid created] \<and> pending m' = pending m + 1 \<and>
        queue m' = queue m @ [Some (r, fn)] \<and> (\<forall>k. k = uuid \<or> get k m' = get k m))"
  using assms
  by (auto simp: submit_def submit_locked_def Let_def put_def get_def nth_append new_job_def split: if_splits)

theorem submit_branches_witness:
  "queue demo_queued = [Some (0, 7)] \<and> get ''a'' demo_queued = Some 0"
  using submit_branches [of "''a''" 10 10 7 demo_started "fst (submit ''a'' 10 10 7 demo_started)" demo_queued]
  by (auto simp: demo_started_def demo_queued_def start_manager_def init_manager_def)

text \<open>The client's view never shows a stale estimate: an estimate appears only for a running job
  whose estimate was refreshed at most thirty seconds ago (as the rounded float difference of
  the clock), and then it is the last one set; the other fields are the job's own.\<close>

theorem to_dict_estimate:
  "(v_eta_seconds (to_dict clock j) = Some n \<longleftrightarrow>
     status j = RUNNING \<and> eta_seconds j = Some n \<and>
     (\<exists>t. eta_updated_at j = Some t \<and> \<not> flt (Fin 30) (elapsed clock t))) \<and>
   v_status (to_dict clock j) = status_value (status j) \<and> v_job_id (to_dict clock j) = job_id j \<and>
   v_error (to_dict clock j) = job_error j \<and> v_output_path (to_dict clock j) = output_path j \<and>
   v_finished_at (to_dict clock j) = finished_at j"
  by (auto simp: to_dict_def Let_def ETA_MAX_AGE_SECONDS_def split: option.split)

section \<open>Draining\<close>

text \<open>The workers' own steps: taking an item, counting it off, claiming, returning from the job
  function and writing the outcome.  Reports are left out: they do not move a worker on.\<close>

inductive work :: "'f mgr \<Rightarrow> 'f mgr \<Rightarrow> bool" where
  work_take: "worker_take i m = Some m' \<Longrightarrow> work m m'"
| work_uncount: "worker_uncount i m = Some m' \<Longrightarrow> work m m'"
| work_claim: "worker_claim now i m = Some m' \<Longrightarrow> work m m'"
| work_return: "worker_return now res i m = Some m' \<Longrightarrow> work m m'"
| work_write: "worker_write i m = Some m' \<Longrightarrow> work m m'"

lemma work_step: "work m m' \<Longrightarrow> step m m'"
  by (induction rule: work.induct)
    (blast intro: step_take step_uncount step_claim step_return step_write)+

fun effort :: "'f worker \<Rightarrow> nat" where
  "effort (WTaken r fn) = 7"
| "effort (WClaim r fn) = 6"
| "effort (WRun r fn) = 5"
| "effort (WWrite r ws d) = length ws"
| "effort _ = 0"

definition item_effort :: "(nat \<times> 'f) option \<Rightarrow> nat" where
  "item_effort item = (case item of None \<Rightarrow> 1 | Some _ \<Rightarrow> 8)"

definition work_left :: "'f mgr \<Rightarrow> nat" where
  "work_left m = sum_list (map item_effort (queue m)) + sum_list (map effort (workers m))"

lemma set_worker_effort:
  assumes "i < length (workers m)"
  shows "work_left (set_worker i w m) + effort (workers m ! i) = work_left m + effort w"
proof -
  obtain xs ys where "workers m = xs @ (workers m ! i) # ys" "i = length xs"
    using worker_split [OF assms] .
  then have sp: "workers m = xs @ (workers m ! i) # ys" "(workers m)[i := w] = xs @ w # ys"
    by (metis list_update_length)+
  have "sum_list (map effort (workers m)) =
      sum_list (map effort xs) + effort (workers m ! i) + sum_list (map effort ys)"
    by (subst sp(1)) simp
  moreover have "sum_list (map effort ((workers m)[i := w])) =
      sum_list (map effort xs) + effort w + sum_list (map effort ys)"
    by (simp add: sp(2))
  ultimately show ?thesis by (simp add: work_left_def set_worker_def)
qed

lemma work_left_frame [simp]:
  "work_left (update_job r f m) = work_left m" "work_left (m\<lparr>pending := n\<rparr>) = work_left m"
  "workers (update_job r f m) = workers m" "workers (m\<lparr>pending := n\<rparr>) = workers m"
  by (simp_all add: work_left_def update_job_def)

lemma terminal_writes_length: "length (terminal_writes now res) \<le> 3"
  by (cases "(now, res)" rule: terminal_writes.cases) simp_all

lemma work_decreases: "work m m' \<Longrightarrow> work_left m' < work_left m"
proof (induction rule: work.induct)
  case (work_take i m m')
  then obtain item rest where q: "queue m = item # rest" "i < length (workers m)" "workers m ! i = WGet"
    and m': "m' = set_worker i (case item of None \<Rightarrow> WDone | Some (r, fn) \<Rightarrow> WTaken r fn) (m\<lparr>queue := rest\<rparr>)"
    by (auto simp: worker_take_def split: if_splits list.splits)
  have "work_left (m\<lparr>queue := rest\<rparr>) + item_effort item = work_left m" by (simp add: work_left_def q)
  then show ?case using q m' set_worker_effort [of i "m\<lparr>queue := rest\<rparr>"]
    by (cases item) (auto simp: item_effort_def)
next
  case (work_uncount i m m')
  then obtain r fn where "i < length (workers m)" "workers m ! i = WTaken r fn"
    "m' = set_worker i (WClaim r fn) (m\<lparr>pending := pending m - 1\<rparr>)"
    by (auto simp: worker_uncount_def split: if_splits worker.splits)
  then show ?case using set_worker_effort [of i "m\<lparr>pending := pending m - 1\<rparr>" "WClaim r fn"] by simp
next
  case (work_claim now i m m')
  then obtain r fn where i: "i < length (workers m)" "workers m ! i = WClaim r fn"
    by (auto simp: worker_claim_def split: if_splits worker.splits)
  show ?case
  proof (cases "cancelled (heap m ! r)")
    case True
    then have "m' = set_worker i (WWrite r (refused_writes now) False) m"
      using work_claim i by (simp add: worker_claim_def claim_def)
    then show ?thesis using i set_worker_effort [of i m "WWrite r (refused_writes now) False"]
      by (simp add: refused_writes_def)
  next
    case False
    let ?m = "update_job r (\<lambda>j. j\<lparr>status := RUNNING\<rparr>) m"
    have "m' = set_worker i (WRun r fn) ?m"
      using work_claim i False by (simp add: worker_claim_def claim_def)
    then show ?thesis using i set_worker_effort [of i ?m "WRun r fn"] by simp
  qed
next
  case (work_return now res i m m')
  then obtain r fn where i: "i < length (workers m)" "workers m ! i = WRun r fn"
    "m' = set_worker i (WWrite r (terminal_writes now res) (kills_thread res)) m"
    by (auto simp: worker_return_def split: if_splits worker.splits)
  then show ?case
    using set_worker_effort [of i m "WWrite r (terminal_writes now res) (kills_thread res)"]
      terminal_writes_length [of now res] by simp
next
  case (work_write i m m')
  then obtain r w ws d where i: "i < length (workers m)" "workers m ! i = WWrite r (w # ws) d"
    by (auto simp: worker_write_def split: if_splits worker.splits list.splits)
  let ?w = "if ws \<noteq> [] then WWrite r ws d else if d then WDone else WGet"
  have "m' = set_worker i ?w (update_job r (write_job w) m)"
    using work_write i by (simp add: worker_write_def)
  then show ?case using i set_worker_effort [of i "update_job r (write_job w) m" ?w]
    by (cases "ws = []"; cases d) simp_all
qed

text \<open>C19. The workers always come to rest: without new submissions no infinite sequence of worker
  steps is possible, whatever the jobs return.\<close>

theorem work_terminates: "wfp (\<lambda>m' m. work m m')"
  by (rule wfp_if_convertible_to_nat [of _ work_left]) (rule work_decreases)

lemma stuck_worker:
  assumes "mgr_inv m" and "i < length (workers m)" and "\<And>m'. \<not> work m m'"
  shows "workers m ! i = WDone \<or> workers m ! i = WGet \<and> queue m = []"
proof (cases "workers m ! i")
  case WGet
  then show ?thesis using assms(2,3) work_take [of i m]
    by (cases "queue m") (auto simp: worker_take_def)
next
  case (WTaken r fn)
  then show ?thesis using assms(2,3) work_uncount [of i m] by (auto simp: worker_uncount_def)
next
  case (WClaim r fn)
  then show ?thesis using assms(2,3) work_claim [of 0 i m]
    by (cases "cancelled (heap m ! r)") (auto simp: worker_claim_def claim_def)
next
  case (WRun r fn)
  then show ?thesis using assms(2,3) work_return [of 0 "Inr ()" i m] by (auto simp: worker_return_def)
next
  case (WWrite r ws d)
  then have "settling (heap m ! r) ws" using worker_invariant [OF assms(1,2)] by simp
  then obtain w ws' where "ws = w # ws'" by (auto simp: settling_def neq_Nil_conv)
  then show ?thesis using WWrite assms(2,3) work_write [of i m] by (auto simp: worker_write_def)
qed simp

text \<open>C18. Every accepted job is brought to an end: when no put is pending and the workers have come to
  rest, and not all of them have ended (a sentinel or a fatal exception ends one), every job is
  completed, failed or cancelled and has its finish time.\<close>

theorem workers_drain_the_backlog:
  assumes "reachable m" and "putting m = []" and "work\<^sup>*\<^sup>* m m'" and "\<And>m''. \<not> work m' m''"
    and "\<exists>w\<in>set (workers m'). w \<noteq> WDone"
  shows "\<forall>r<length (heap m'). terminal (status (heap m' ! r)) \<and> finished_at (heap m' ! r) \<noteq> None"
proof -
  have put: "putting m' = []"
    using assms(3,2)
    by (induction rule: rtranclp_induct)
      (auto elim!: work.cases simp: worker_take_def worker_uncount_def worker_claim_def worker_return_def
        worker_write_def claim_def set_worker_def update_job_def split: if_splits worker.splits list.splits)
  have "step\<^sup>*\<^sup>* m m'" using assms(3) by (induction rule: rtranclp_induct) (auto dest: work_step)
  then have inv: "mgr_inv m'" using mgr_sys.inv_run reachable_inv [OF assms(1)] by blast
  have idle: "busy w = []" if w: "w \<in> set (workers m')" for w
  proof -
    obtain i where "i < length (workers m')" "w = workers m' ! i" using w by (auto simp: in_set_conv_nth)
    then show ?thesis using stuck_worker [OF inv _ assms(4), of i] by auto
  qed
  then have "held (workers m') = []" by (simp add: held_def)
  moreover have "queue m' = []"
  proof -
    obtain i where "i < length (workers m')" "workers m' ! i \<noteq> WDone"
      using assms(5) by (auto simp: in_set_conv_nth)
    then show ?thesis using stuck_worker [OF inv _ assms(4), of i] by auto
  qed
  ultimately have "owned m' = []" using put by (simp add: owned_def backlog_def)
  then show ?thesis using inv_part(6) [OF inv] by (simp add: settled_def)
qed

definition demo_drained :: "nat mgr" where
  "demo_drained = the (worker_write 0 (the (worker_write 0 demo_refused)))"

lemma demo_drained_run: "work\<^sup>*\<^sup>* demo_deleted demo_drained"
proof -
  let ?a = "the (worker_take 0 demo_deleted)" and ?b = "the (worker_uncount 0 (the (worker_take 0 demo_deleted)))"
    and ?d = "the (worker_write 0 demo_refused)"
  have "work demo_deleted ?a" by (rule work_take [of 0]) (simp add: demo_defs)
  moreover have "work ?a ?b" by (rule work_uncount [of 0]) (simp add: demo_defs)
  moreover have "work ?b demo_refused" by (rule work_claim [of 11 0]) (simp add: demo_defs)
  moreover have "work demo_refused ?d" by (rule work_write [of 0]) (simp add: demo_defs worker_write_def)
  moreover have "work ?d demo_drained"
    by (rule work_write [of 0]) (simp add: demo_defs demo_drained_def worker_write_def)
  ultimately show ?thesis by (meson rtranclp.rtrancl_into_rtrancl rtranclp.rtrancl_refl)
qed

lemma demo_drained_stuck: "\<not> work demo_drained m"
proof
  assume "work demo_drained m"
  moreover have "workers demo_drained = [WGet]" "queue demo_drained = []"
    by (simp_all add: demo_defs demo_drained_def worker_write_def)
  ultimately show False
    by (auto elim!: work.cases simp: worker_take_def worker_uncount_def worker_claim_def
        worker_return_def worker_write_def split: if_splits)
qed

theorem workers_drain_the_backlog_witness:
  "0 < length (heap demo_drained) \<and> terminal (status (heap demo_drained ! 0)) \<and>
     finished_at (heap demo_drained ! 0) \<noteq> None"
proof -
  have "\<forall>r<length (heap demo_drained). terminal (status (heap demo_drained ! r)) \<and>
      finished_at (heap demo_drained ! r) \<noteq> None"
    by (rule workers_drain_the_backlog [OF reachable_demo(3) _ demo_drained_run demo_drained_stuck])
      (simp_all add: demo_defs demo_drained_def worker_write_def)
  moreover have "0 < length (heap demo_drained)"
    by (simp add: demo_defs demo_drained_def worker_write_def)
  ultimately show ?thesis by simp
qed

text \<open>The guarantee stops at shutdown: a submit that left its critical section before a shutdown may
  put its job behind the sentinels, and then no worker is left to take it.  Its cancel event is set,
  but its status stays queued.\<close>

definition demo_accepted :: "nat mgr" where
  "demo_accepted = (let m = snd (submit_locked ''a'' 10 10 demo_started) in m\<lparr>putting := putting m @ [(0, 7)]\<rparr>)"

definition demo_ended :: "nat mgr" where
  "demo_ended = the (worker_take 0 (the (shutdown_step (the (shutdown_step (the (shutdown_step
     (shutdown_begin demo_accepted))))))))"

definition demo_stranded :: "nat mgr" where
  "demo_stranded = put (Some (0, 7)) (demo_ended\<lparr>putting := [] @ []\<rparr>)"

lemmas stranded_defs = demo_stranded_def demo_ended_def demo_accepted_def demo_defs shutdown_step_def

lemma late_put_strands_job:
  "reachable demo_stranded \<and> status (heap demo_stranded ! 0) = QUEUED \<and> cancelled (heap demo_stranded ! 0) \<and>
     (\<forall>m. \<not> work demo_stranded m)"
proof -
  let ?a = "shutdown_begin demo_accepted"
  let ?b = "the (shutdown_step ?a)"
  let ?c = "the (shutdown_step ?b)"
  let ?d = "the (shutdown_step ?c)"
  have sub: "submit_locked ''a'' 10 10 demo_started = (Accepted 0, snd (submit_locked ''a'' 10 10 demo_started))"
    by (simp add: stranded_defs)
  have "step demo_started demo_accepted" unfolding demo_accepted_def Let_def
    by (rule step_submit_accept [OF _ sub]) (simp add: stranded_defs)
  then have "reachable demo_accepted" by (rule reachable_step [OF reachable_demo(1)])
  moreover have "step demo_accepted ?a" by (rule step_shutdown) (simp add: stranded_defs)
  moreover have "step ?a ?b" by (rule step_shutting) (simp add: stranded_defs)
  moreover have "step ?b ?c" by (rule step_shutting) (simp add: stranded_defs)
  moreover have "step ?c ?d" by (rule step_shutting) (simp add: stranded_defs)
  moreover have "step ?d demo_ended" by (rule step_take [of 0]) (simp add: stranded_defs)
  moreover have "step demo_ended demo_stranded" unfolding demo_stranded_def
    by (rule step_put) (simp add: stranded_defs)
  ultimately have "reachable demo_stranded" by (meson reachable_step)
  moreover have st: "status (heap demo_stranded ! 0) = QUEUED" "cancelled (heap demo_stranded ! 0)"
    "workers demo_stranded = [WDone]"
    by (simp_all add: stranded_defs)
  moreover have "\<not> work demo_stranded m" for m
    using st(3)
    by (auto elim!: work.cases simp: worker_take_def worker_uncount_def worker_claim_def
        worker_return_def worker_write_def split: if_splits)
  ultimately show ?thesis by blast
qed

end
