(* ===== verification/Board.thy ===== *)
theory Board
  imports JobsProperties
begin

text \<open>
  The abstract specification of the job store: a board of tickets, one per job ever created, and
  a flag that says whether new jobs are taken.  It has no queue, no workers, no counter, no locks
  and no order of writes: only what a client may rely on.  The detailed model of Jobs refines
  it: every atomic step of any thread is one step of the board, or is invisible on it.
\<close>

section \<open>The board\<close>

record ticket =
  t_id :: string
  t_status :: jobstatus
  t_cancelled :: bool
  t_listed :: bool

record board =
  tickets :: "ticket list"
  accepting :: bool

definition mark :: "nat \<Rightarrow> (ticket \<Rightarrow> ticket) \<Rightarrow> board \<Rightarrow> board" where
  "mark r f b = b\<lparr>tickets := (tickets b)[r := f (tickets b ! r)]\<rparr>"

definition add_ticket :: "ticket \<Rightarrow> board \<Rightarrow> board" where
  "add_ticket t b = b\<lparr>tickets := tickets b @ [t]\<rparr>"

definition unlist :: "nat set \<Rightarrow> board \<Rightarrow> board" where
  "unlist R b = b\<lparr>tickets := map (\<lambda>r. if r \<in> R then (tickets b ! r)\<lparr>t_listed := False\<rparr> else tickets b ! r)
     [0..<length (tickets b)]\<rparr>"

inductive board_step :: "board \<Rightarrow> board \<Rightarrow> bool" where
  b_open: "board_step b (b\<lparr>accepting := True\<rparr>)"
| b_close: "board_step b (b\<lparr>accepting := False\<rparr>)"
| b_accept: "accepting b \<Longrightarrow> k \<notin> t_id ` set (tickets b) \<Longrightarrow>
    board_step b (add_ticket \<lparr>t_id = k, t_status = QUEUED, t_cancelled = False, t_listed = True\<rparr> b)"
| b_refuse: "\<not> accepting b \<Longrightarrow> k \<notin> t_id ` set (tickets b) \<Longrightarrow>
    board_step b (add_ticket \<lparr>t_id = k, t_status = FAILED, t_cancelled = False, t_listed = False\<rparr> b)"
| b_run: "r < length (tickets b) \<Longrightarrow> t_status (tickets b ! r) = QUEUED \<Longrightarrow>
    \<not> t_cancelled (tickets b ! r) \<Longrightarrow> board_step b (mark r (\<lambda>t. t\<lparr>t_status := RUNNING\<rparr>) b)"
| b_drop: "r < length (tickets b) \<Longrightarrow> t_status (tickets b ! r) = QUEUED \<Longrightarrow>
    t_cancelled (tickets b ! r) \<Longrightarrow> board_step b (mark r (\<lambda>t. t\<lparr>t_status := CANCELLED\<rparr>) b)"
| b_finish: "r < length (tickets b) \<Longrightarrow> t_status (tickets b ! r) = RUNNING \<Longrightarrow> terminal s \<Longrightarrow>
    board_step b (mark r (\<lambda>t. t\<lparr>t_status := s\<rparr>) b)"
| b_cancel: "r < length (tickets b) \<Longrightarrow> \<not> accepting b \<Longrightarrow>
    board_step b (mark r (\<lambda>t. t\<lparr>t_cancelled := True\<rparr>) b)"
| b_delete: "r < length (tickets b) \<Longrightarrow> t_listed (tickets b ! r) \<Longrightarrow>
    board_step b (mark r (\<lambda>t. t\<lparr>t_cancelled := True, t_listed := False\<rparr>) b)"
| b_evict: "(\<And>r. r \<in> R \<Longrightarrow> r < length (tickets b) \<Longrightarrow> terminal (t_status (tickets b ! r))) \<Longrightarrow>
    board_step b (unlist R b)"

text \<open>What the board guarantees: ids are never reused, and an unfinished job that is no longer
  listed has been cancelled.\<close>

definition orphan_free :: "board \<Rightarrow> bool" where
  "orphan_free b \<longleftrightarrow> (\<forall>t\<in>set (tickets b). t_listed t \<or> t_cancelled t \<or> terminal (t_status t))"

definition board_ok :: "board \<Rightarrow> bool" where
  "board_ok b \<longleftrightarrow> distinct (map t_id (tickets b)) \<and> orphan_free b"

definition empty_board :: "board \<Rightarrow> bool" where
  "empty_board b \<longleftrightarrow> tickets b = [] \<and> \<not> accepting b"

lemma mark_ok:
  assumes "board_ok b" and "r < length (tickets b)"
    and f: "t_id (f (tickets b ! r)) = t_id (tickets b ! r)"
      "t_listed (f (tickets b ! r)) \<or> t_cancelled (f (tickets b ! r)) \<or> terminal (t_status (f (tickets b ! r)))"
  shows "board_ok (mark r f b)"
proof -
  have "map t_id (tickets (mark r f b)) = map t_id (tickets b)"
    using f(1) by (simp add: mark_def map_update list_update_same_conv assms(2))
  moreover have "orphan_free (mark r f b)"
    using assms(1) f(2) by (auto simp: orphan_free_def board_ok_def mark_def dest!: set_update_subset_insert [THEN subsetD])
  ultimately show ?thesis using assms(1) by (simp add: board_ok_def)
qed

lemma unlist_ok:
  assumes "board_ok b" and "\<And>r. r \<in> R \<Longrightarrow> r < length (tickets b) \<Longrightarrow> terminal (t_status (tickets b ! r))"
  shows "board_ok (unlist R b)"
proof -
  have "map t_id (tickets (unlist R b)) = map t_id (tickets b)"
    by (rule nth_equalityI) (simp_all add: unlist_def)
  then show ?thesis using assms by (auto simp: board_ok_def orphan_free_def unlist_def)
qed

lemma add_ticket_ok:
  "board_ok b \<Longrightarrow> t_id t \<notin> t_id ` set (tickets b) \<Longrightarrow> t_listed t \<or> terminal (t_status t) \<Longrightarrow>
     board_ok (add_ticket t b)"
  by (auto simp: board_ok_def orphan_free_def add_ticket_def)

lemma accepting_ok [simp]: "board_ok (b\<lparr>accepting := x\<rparr>) = board_ok b"
  by (simp add: board_ok_def orphan_free_def)

lemma board_ok_step: "board_step b b' \<Longrightarrow> board_ok b \<Longrightarrow> board_ok b'"
proof (induction rule: board_step.induct)
  case (b_run r b)
  then show ?case by (intro mark_ok) (auto simp: board_ok_def orphan_free_def)
qed (simp_all add: mark_ok unlist_ok add_ticket_ok)

interpretation board_sys: invariant_system empty_board board_step board_ok
proof unfold_locales
  show "board_ok b" if "empty_board b" for b
    using that by (simp add: empty_board_def board_ok_def orphan_free_def)
qed (rule board_ok_step)

section \<open>The view of the manager\<close>

definition ticket_of :: "'f mgr \<Rightarrow> nat \<Rightarrow> ticket" where
  "ticket_of m r = \<lparr>t_id = job_id (heap m ! r), t_status = status (heap m ! r),
     t_cancelled = cancelled (heap m ! r), t_listed = r \<in> snd ` set (jobs m)\<rparr>"

definition board_of :: "'f mgr \<Rightarrow> board" where
  "board_of m = \<lparr>tickets = map (ticket_of m) [0..<length (heap m)], accepting = is_running m\<rparr>"

lemma board_of_simps [simp]:
  "length (tickets (board_of m)) = length (heap m)" "accepting (board_of m) = is_running m"
  "r < length (heap m) \<Longrightarrow> tickets (board_of m) ! r = ticket_of m r"
  "t_id ` set (tickets (board_of m)) = job_id ` set (heap m)"
proof -
  have "map t_id (tickets (board_of m)) = map job_id (heap m)"
    by (rule nth_equalityI) (simp_all add: board_of_def ticket_of_def)
  then show "t_id ` set (tickets (board_of m)) = job_id ` set (heap m)" by (metis set_map)
qed (simp_all add: board_of_def)

lemma board_of_eqI:
  assumes "length (heap m) = length (tickets b)" and "is_running m = accepting b"
    and "\<And>r. r < length (heap m) \<Longrightarrow> ticket_of m r = tickets b ! r"
  shows "board_of m = b"
proof -
  have "tickets (board_of m) = tickets b" by (rule nth_equalityI) (simp_all add: assms)
  then show ?thesis using assms(2) by (cases b) (simp add: board_of_def)
qed

text \<open>A step that only changes one job is seen as a mark on its ticket; one that changes no job, no
  entry and not the flag is not seen.\<close>

lemma view_same:
  assumes "length (heap m') = length (heap m)" and "is_running m' = is_running m"
    and "\<And>r. r < length (heap m) \<Longrightarrow> ticket_of m' r = ticket_of m r"
  shows "board_of m' = board_of m"
  by (rule board_of_eqI) (simp_all add: assms)

lemma view_mark:
  assumes "r < length (heap m)" and "heap m' = (heap m)[r := j]" and "is_running m' = is_running m"
    and "ticket_of m' r = f (ticket_of m r)"
    and "\<And>k. k < length (heap m) \<Longrightarrow> k \<noteq> r \<Longrightarrow> k \<in> snd ` set (jobs m') \<longleftrightarrow> k \<in> snd ` set (jobs m)"
  shows "board_of m' = mark r f (board_of m)"
proof (rule board_of_eqI)
  fix k assume "k < length (heap m')"
  then show "ticket_of m' k = tickets (mark r f (board_of m)) ! k"
    using assms by (cases "k = r") (auto simp: mark_def ticket_of_def nth_list_update)
qed (simp_all add: assms mark_def)

lemma view_add:
  assumes "heap m' = heap m @ [j]" and "is_running m' = is_running m"
    and "ticket_of m' (length (heap m)) = t"
    and "\<And>k. k < length (heap m) \<Longrightarrow> k \<in> snd ` set (jobs m') \<longleftrightarrow> k \<in> snd ` set (jobs m)"
  shows "board_of m' = add_ticket t (board_of m)"
proof (rule board_of_eqI)
  fix k assume "k < length (heap m')"
  then show "ticket_of m' k = tickets (add_ticket t (board_of m)) ! k"
    using assms by (cases "k = length (heap m)") (auto simp: add_ticket_def ticket_of_def nth_append)
qed (simp_all add: assms add_ticket_def)

section \<open>The simulation\<close>

text \<open>While a shutdown is in progress the manager takes no jobs.\<close>

definition closing :: "'f mgr \<Rightarrow> bool" where
  "closing m \<longleftrightarrow> shut m = NoShutdown \<or> \<not> is_running m"

lemma closing_step: "step m m' \<Longrightarrow> closing m \<Longrightarrow> closing m'"
proof (induction rule: step.induct)
  case (step_shutting m m')
  then show ?case
    by (auto simp: closing_def shutdown_step_def update_job_def put_def
        split: shutdown_pc.splits list.splits nat.splits)
qed (auto simp: closing_def start_manager_def shutdown_begin_def submit_locked_cases put_def delete_def
    sweep_def worker_take_def worker_uncount_def worker_claim_def claim_def worker_report_def
    worker_return_def worker_write_def set_worker_def update_job_def Let_def
    split: if_splits list.splits worker.splits option.splits)

lemma stored_id:
  assumes "mgr_inv m" and "map_of (jobs m) jid = Some r"
  shows "r < length (heap m)" and "r \<in> snd ` set (jobs m)"
    and "k \<in> snd ` set (AList.delete jid (jobs m)) \<longleftrightarrow> k \<in> snd ` set (jobs m) \<and> k \<noteq> r"
proof -
  have refs: "\<And>k i. (k, i) \<in> set (jobs m) \<Longrightarrow> i < length (heap m) \<and> job_id (heap m ! i) = k"
    using inv_part(1) [OF assms(1)] by (auto simp: refs_ok_def)
  have r: "(jid, r) \<in> set (jobs m)" using assms(2) by (rule map_of_SomeD)
  then show "r < length (heap m)" using refs by blast
  show "r \<in> snd ` set (jobs m)" using r by force
  have "(k' = jid) = (i = r)" if "(k', i) \<in> set (jobs m)" for k' i
    using that r refs eq_key_imp_eq_value [of "jobs m" jid i r] inv_part(1) [OF assms(1)]
    by (auto simp: refs_ok_def)
  then show "k \<in> snd ` set (AList.delete jid (jobs m)) \<longleftrightarrow> k \<in> snd ` set (jobs m) \<and> k \<noteq> r"
    by (force simp: AList.delete_eq)
qed

lemma sim_delete:
  assumes "mgr_inv m" and "m' = snd (delete jid m)"
  shows "board_of m' = board_of m \<or> board_step (board_of m) (board_of m')"
proof (cases "map_of (jobs m) jid")
  case (Some r)
  note r = stored_id [OF assms(1) Some]
  have "board_of m' = mark r (\<lambda>t. t\<lparr>t_cancelled := True, t_listed := False\<rparr>) (board_of m)"
    using Some r by (intro view_mark) (auto simp: assms(2) delete_def update_job_def ticket_of_def)
  moreover have "board_step (board_of m) \<dots>"
    using r by (intro b_delete) (simp_all add: ticket_of_def)
  ultimately show ?thesis by metis
qed (simp add: assms(2) delete_def)

lemma sim_sweep:
  assumes "mgr_inv m" and "m' = snd (sweep now m)"
  shows "board_step (board_of m) (board_of m')"
proof -
  have d: "distinct (map fst (jobs m))" using assms(1) by (simp add: inv_parts)
  let ?gone = "\<lambda>r. expired now (ttl m) (heap m ! r)"
  let ?R = "{r. ?gone r}"
  have m': "m' = m\<lparr>jobs := jobs m'\<rparr>" "jobs m' = filter (\<lambda>(k, r). \<not> ?gone r) (jobs m)"
    using sweep_as_filter(1,2) [OF d, of now] assms(2) by simp_all
  have same: "heap m' = heap m" "is_running m' = is_running m" by (subst m'(1); simp)+
  have "board_of m' = unlist ?R (board_of m)"
  proof (rule board_of_eqI)
    fix r assume "r < length (heap m')"
    then have r: "r < length (heap m)" by (simp add: same)
    have "r \<in> snd ` set (jobs m') \<longleftrightarrow> r \<in> snd ` set (jobs m) \<and> \<not> ?gone r"
      by (force simp: m'(2))
    then show "ticket_of m' r = tickets (unlist ?R (board_of m)) ! r"
      using r by (simp add: unlist_def ticket_of_def same)
  qed (simp_all add: unlist_def same)
  moreover have "board_step (board_of m) (unlist ?R (board_of m))"
    by (rule b_evict) (auto simp: expired_def ticket_of_def)
  ultimately show ?thesis by simp
qed

lemma owner_ok:
  assumes "mgr_inv m" and "i < length (workers m)"
  shows "set (busy (workers m ! i)) \<subseteq> {..<length (heap m)}"
proof -
  have "set (busy (workers m ! i)) \<subseteq> set (owned m)"
    using busy_held [OF nth_mem [OF assms(2)]] by (auto simp: owned_def)
  then show ?thesis using inv_part(1) [OF assms(1)] by (auto simp: refs_ok_def)
qed

lemma sim_claim:
  assumes "mgr_inv m" and "worker_claim now i m = Some m'"
  shows "board_of m' = board_of m \<or> board_step (board_of m) (board_of m')"
proof -
  obtain r fn where i: "i < length (workers m)" "workers m ! i = WClaim r fn"
    using assms(2) by (auto simp: worker_claim_def split: if_splits worker.splits)
  have r: "r < length (heap m)" "status (heap m ! r) = QUEUED"
    using owner_ok [OF assms(1) i(1)] worker_invariant [OF assms(1) i(1)] i(2) by (auto simp: waiting_def)
  show ?thesis
  proof (cases "cancelled (heap m ! r)")
    case True
    then have "board_of m' = board_of m"
      using assms(2) i by (intro view_same) (auto simp: worker_claim_def claim_def set_worker_def ticket_of_def)
    then show ?thesis ..
  next
    case False
    then have m': "m' = set_worker i (WRun r fn) (update_job r (\<lambda>j. j\<lparr>status := RUNNING\<rparr>) m)"
      using assms(2) i by (simp add: worker_claim_def claim_def)
    have "board_of m' = mark r (\<lambda>t. t\<lparr>t_status := RUNNING\<rparr>) (board_of m)"
      using r by (intro view_mark) (auto simp: m' set_worker_def update_job_def ticket_of_def)
    moreover have "board_step (board_of m) \<dots>"
      using r False by (intro b_run) (simp_all add: ticket_of_def)
    ultimately show ?thesis by metis
  qed
qed

lemma sim_write:
  assumes "mgr_inv m" and "worker_write i m = Some m'"
  shows "board_of m' = board_of m \<or> board_step (board_of m) (board_of m')"
proof -
  obtain r w ws d where i: "i < length (workers m)" "workers m ! i = WWrite r (w # ws) d"
    and m': "m' = set_worker i (if ws \<noteq> [] then WWrite r ws d else if d then WDone else WGet)
        (update_job r (write_job w) m)"
    using assms(2) by (auto simp: worker_write_def split: if_splits worker.splits list.splits)
  have r: "r < length (heap m)" and j: "settling (heap m ! r) (w # ws)"
    using owner_ok [OF assms(1) i(1)] worker_invariant [OF assms(1) i(1)] i(2) by auto
  have other: "job_id (write_job w (heap m ! r)) = job_id (heap m ! r)"
    "cancelled (write_job w (heap m ! r)) = cancelled (heap m ! r)"
    using settling_step [OF j] by simp_all
  let ?s = "status (write_job w (heap m ! r))"
  have mark: "board_of m' = mark r (\<lambda>t. t\<lparr>t_status := ?s\<rparr>) (board_of m)"
    using r other by (intro view_mark) (auto simp: m' set_worker_def update_job_def ticket_of_def)
  consider "?s = status (heap m ! r)"
    | "status (heap m ! r) = QUEUED" "cancelled (heap m ! r)" "?s = CANCELLED"
    | "status (heap m ! r) = RUNNING" "terminal ?s"
    using evolves_settling [OF j] j by (cases "status (heap m ! r)") (auto simp: evolves_def settling_def)
  then show ?thesis
  proof cases
    case 1
    then have "board_of m' = board_of m"
      using r other by (intro view_same) (auto simp: m' set_worker_def update_job_def ticket_of_def nth_list_update)
    then show ?thesis ..
  next
    case 2
    then have "board_step (board_of m) (mark r (\<lambda>t. t\<lparr>t_status := CANCELLED\<rparr>) (board_of m))"
      using r by (intro b_drop) (simp_all add: ticket_of_def)
    then show ?thesis using mark 2 by simp
  next
    case 3
    then have "board_step (board_of m) (mark r (\<lambda>t. t\<lparr>t_status := ?s\<rparr>) (board_of m))"
      using r by (intro b_finish) (simp_all add: ticket_of_def)
    then show ?thesis using mark by simp
  qed
qed

lemma sim_shutting:
  assumes "mgr_inv m" and "closing m" and "shutdown_step m = Some m'"
  shows "board_of m' = board_of m \<or> board_step (board_of m) (board_of m')"
proof (cases "\<exists>r rs. shut m = Cancelling (r # rs)")
  case True
  then obtain r rs where s: "shut m = Cancelling (r # rs)" by blast
  have r: "r < length (heap m)" using inv_part(1) [OF assms(1)] s by (simp add: refs_ok_def)
  have "board_of m' = mark r (\<lambda>t. t\<lparr>t_cancelled := True\<rparr>) (board_of m)"
    using assms(3) s r by (intro view_mark) (auto simp: shutdown_step_def update_job_def ticket_of_def)
  moreover have "board_step (board_of m) \<dots>"
    using r assms(2) s by (intro b_cancel) (simp_all add: closing_def)
  ultimately show ?thesis by metis
next
  case False
  then have "board_of m' = board_of m"
    using assms(3) by (intro view_same)
      (auto simp: shutdown_step_def put_def ticket_of_def split: shutdown_pc.splits list.splits nat.splits)
  then show ?thesis ..
qed

lemma sim_rest:
  "shut m = NoShutdown \<Longrightarrow> board_step (board_of m) (board_of (start_manager m))"
  "board_step (board_of m) (board_of (shutdown_begin m))"
  "worker_take i m = Some m' \<Longrightarrow> board_of m' = board_of m"
  "worker_uncount i m = Some m' \<Longrightarrow> board_of m' = board_of m"
  "worker_return now res i m = Some m' \<Longrightarrow> board_of m' = board_of m"
  "board_of (put item m) = board_of m" "board_of (m\<lparr>putting := ps\<rparr>) = board_of m"
proof -
  have "board_of (start_manager m) = (board_of m)\<lparr>accepting := True\<rparr>"
    by (cases "is_running m"; intro board_of_eqI) (simp_all add: start_manager_def Let_def ticket_of_def)
  then show "board_step (board_of m) (board_of (start_manager m))" by (simp add: b_open)
  have "board_of (shutdown_begin m) = (board_of m)\<lparr>accepting := False\<rparr>"
    by (intro board_of_eqI) (simp_all add: shutdown_begin_def ticket_of_def)
  then show "board_step (board_of m) (board_of (shutdown_begin m))" by (simp add: b_close)
  show "worker_take i m = Some m' \<Longrightarrow> board_of m' = board_of m"
    by (rule view_same) (auto simp: worker_take_def set_worker_def ticket_of_def split: if_splits list.splits)
  show "worker_uncount i m = Some m' \<Longrightarrow> board_of m' = board_of m"
    by (rule view_same) (auto simp: worker_uncount_def set_worker_def ticket_of_def split: if_splits worker.splits)
  show "worker_return now res i m = Some m' \<Longrightarrow> board_of m' = board_of m"
    by (rule view_same) (auto simp: worker_return_def set_worker_def ticket_of_def split: if_splits worker.splits)
qed (simp_all add: board_of_def ticket_of_def put_def)

lemma sim_submit:
  assumes "mgr_inv m" and "uuid \<notin> job_id ` set (heap m)"
  shows "submit_locked uuid created now m = (Accepted r, m') \<Longrightarrow> board_step (board_of m) (board_of m')"
    and "submit_locked uuid created now m = (NotRunning r, m') \<Longrightarrow> board_step (board_of m) (board_of m')"
proof -
  have refs: "\<And>k i. (k, i) \<in> set (jobs m) \<Longrightarrow> i < length (heap m) \<and> job_id (heap m ! i) = k"
    using inv_part(1) [OF assms(1)] by (auto simp: refs_ok_def)
  then have "uuid \<notin> fst ` set (jobs m)" using assms(2) by force
  then have up: "AList.update uuid k (jobs m) = jobs m @ [(uuid, k)]" for k by (rule update_fresh)
  show "board_step (board_of m) (board_of m')" if "submit_locked uuid created now m = (Accepted r, m')"
  proof -
    note m' = that [unfolded submit_locked_cases]
    have "board_of m' = add_ticket \<lparr>t_id = uuid, t_status = QUEUED, t_cancelled = False, t_listed = True\<rparr> (board_of m)"
      using m' by (intro view_add) (auto simp: up ticket_of_def new_job_def)
    moreover have "board_step (board_of m) \<dots>" using m' assms(2) by (intro b_accept) simp_all
    ultimately show ?thesis by metis
  qed
  show "board_step (board_of m) (board_of m')" if "submit_locked uuid created now m = (NotRunning r, m')"
  proof -
    note m' = that [unfolded submit_locked_cases]
    have "length (heap m) \<notin> snd ` set (jobs m)" using refs by force
    then have "board_of m' = add_ticket \<lparr>t_id = uuid, t_status = FAILED, t_cancelled = False, t_listed = False\<rparr> (board_of m)"
      using m' by (intro view_add) (auto simp: ticket_of_def new_job_def)
    moreover have "board_step (board_of m) \<dots>" using m' assms(2) by (intro b_refuse) simp_all
    ultimately show ?thesis by metis
  qed
qed

lemma sim_report:
  assumes "worker_report i w m = Some m'"
  shows "board_of m' = board_of m"
proof -
  obtain r where w: "is_report w" and m': "m' = update_job r (write_job w) m"
    using assms by (auto simp: worker_report_def split: if_splits worker.splits)
  have "ticket_of m' k = ticket_of m k" for k
    using nth_update_or [of "heap m" r "write_job w (heap m ! r)" k] report_keeps [OF w, of "heap m ! r"]
    by (auto simp: m' ticket_of_def update_job_def)
  then show ?thesis by (intro view_same) (simp_all add: m' update_job_def)
qed

lemma sim_step:
  assumes "step m m'" and "mgr_inv m" and "closing m"
  shows "board_of m' = board_of m \<or> board_step (board_of m) (board_of m')"
  using assms(1)
proof cases
  case (step_submit_accept uuid created now r m1 fn)
  then show ?thesis using sim_submit(1) [OF assms(2)] by (simp add: sim_rest)
next
  case (step_submit_refuse uuid created now r)
  then show ?thesis using sim_submit(2) [OF assms(2)] by simp
qed (simp_all add: sim_rest sim_report sim_delete [OF assms(2)] sim_sweep [OF assms(2)]
    sim_claim [OF assms(2)] sim_write [OF assms(2)] sim_shutting [OF assms(2,3)])

definition sim_inv :: "'f mgr \<Rightarrow> bool" where
  "sim_inv m \<longleftrightarrow> mgr_inv m \<and> closing m"

lemma initial_view: "initial_manager m \<Longrightarrow> empty_board (board_of m) \<and> sim_inv m"
  by (auto simp: initial_manager_def init_manager_def board_of_def empty_board_def sim_inv_def closing_def
      intro: mgr_inv_init [unfolded init_manager_def])

interpretation store_board: refinement initial_manager step sim_inv board_of empty_board board_step
proof unfold_locales
  show "sim_inv m'" if "sim_inv m" "step m m'" for m m' :: "'f mgr"
    using that by (auto simp: sim_inv_def intro: mgr_inv_step closing_step)
  show "board_of m' = board_of m \<or> board_step (board_of m) (board_of m')"
    if "sim_inv m" "step m m'" for m m' :: "'f mgr"
    using that by (auto simp: sim_inv_def dest: sim_step)
qed (simp_all add: initial_view)

lemma reachable_run:
  assumes "reachable m"
  obtains m0 where "initial_manager m0" and "step\<^sup>*\<^sup>* m0 m"
  using assms by (auto simp: reachable_def initial_manager_def)

lemma reachable_sim_inv: "reachable m \<Longrightarrow> sim_inv m"
  by (meson reachable_run store_board.inv_reachable)

text \<open>C3. The job store refines the board: under any interleaving of threads, every atomic step is one
  step of the board or is invisible on it, and every reachable store shows a board that the
  specification can produce from the empty one.  In particular a job starts only when it is
  queued and not cancelled, is dropped unstarted only when it was cancelled, is refused only while
  the store is closed, and leaves the listing only cancelled or finished.\<close>

theorem job_store_refines_board:
  assumes "reachable m" and "step m m'"
  shows "(board_of m' = board_of m \<or> board_step (board_of m) (board_of m')) \<and>
    board_step\<^sup>*\<^sup>* \<lparr>tickets = [], accepting = False\<rparr> (board_of m)"
proof -
  obtain m0 where m0: "initial_manager m0" "step\<^sup>*\<^sup>* m0 m" using assms(1) by (rule reachable_run)
  have "board_of m0 = \<lparr>tickets = [], accepting = False\<rparr>"
    using m0(1) by (auto simp: initial_manager_def init_manager_def board_of_def)
  moreover have "board_step\<^sup>*\<^sup>* (board_of m0) (board_of m)"
    using store_board.run_refines [OF m0(2) store_board.inv_initial [OF m0(1)]] .
  ultimately show ?thesis
    using store_board.simulates [OF reachable_sim_inv [OF assms(1)] assms(2)] by simp
qed

theorem job_store_refines_board_witness:
  "board_of demo_deleted \<noteq> board_of demo_queued \<and> board_step (board_of demo_queued) (board_of demo_deleted)"
proof -
  have "step demo_queued demo_deleted" unfolding demo_deleted_def by (rule step_delete)
  moreover have "board_of demo_deleted \<noteq> board_of demo_queued"
    by (simp add: demo_defs board_of_def ticket_of_def)
  ultimately show ?thesis using job_store_refines_board [OF reachable_demo(2)] by blast
qed

text \<open>C4. No job becomes unreachable while it may still run: ids are never shared, and a job that is
  not finished is stored under its id, so that it can be polled and deleted, or its cancel event is
  set.  Proved of the board and carried over by the refinement.\<close>

theorem unfinished_jobs_stay_controllable:
  assumes "reachable m"
  shows "distinct (map job_id (heap m)) \<and>
    (\<forall>r<length (heap m). get (job_id (heap m ! r)) m = Some r \<or> cancelled (heap m ! r) \<or>
       terminal (status (heap m ! r)))"
proof -
  obtain m0 where m0: "initial_manager m0" "step\<^sup>*\<^sup>* m0 m" using assms by (rule reachable_run)
  have "board_ok (board_of m)"
    by (rule store_board.transfer_invariant [OF board_sys.invariant_system_axioms m0])
  moreover have "map t_id (tickets (board_of m)) = map job_id (heap m)"
    by (rule nth_equalityI) (simp_all add: ticket_of_def)
  moreover have "get (job_id (heap m ! r)) m = Some r" if "r \<in> snd ` set (jobs m)" for r
    using that inv_part(1) [OF reachable_inv [OF assms]] by (auto simp: refs_ok_def get_def)
  moreover have "t_listed (ticket_of m r) \<or> t_cancelled (ticket_of m r) \<or> terminal (t_status (ticket_of m r))"
    if "r < length (heap m)" "orphan_free (board_of m)" for r
    using that by (simp add: orphan_free_def board_of_def)
  ultimately show ?thesis by (fastforce simp: board_ok_def ticket_of_def)
qed

theorem unfinished_jobs_stay_controllable_witness:
  "get ''a'' demo_deleted = None \<and> cancelled (heap demo_deleted ! 0)"
proof -
  have "length (heap demo_deleted) = 1" "job_id (heap demo_deleted ! 0) = ''a''"
    "status (heap demo_deleted ! 0) = QUEUED" "get ''a'' demo_deleted = None"
    by (simp_all add: demo_defs get_def)
  then show ?thesis using unfinished_jobs_stay_controllable [OF reachable_demo(3)] by auto
qed

end
