(* ===== verification/Ops.thy ===== *)
theory Ops
  imports Paths Presets Runner Jobs Files
begin

text \<open>
  The encode operation (app/ops.py) with the request it serves (app/models.py): the checks, the
  exclusive claim of the staging name, the temporary preset file, the encode, the tamper check,
  the publishing rename and the clean-up of every exit.  The environment record holds what the
  operation cannot decide: the answers of realpath and isfile, the random names, the failures of
  single calls, json.dumps and json.loads, and the HandBrake process together with everything
  else that happens to the file system while it runs and before its output is renamed.
\<close>

section \<open>The operation\<close>

record encode_request =
  source_path :: string
  preset_json :: dict
  preset_name :: string

record op_env =
  view :: os_view
  roots :: "string list"               \<comment> \<open>config.ALLOWED_ROOTS\<close>
  hb_bin :: string                     \<comment> \<open>config.HANDBRAKE_BIN\<close>
  token_hex :: string
  temp_name :: string                  \<comment> \<open>the name NamedTemporaryFile picks\<close>
  open_fault :: "string option"        \<comment> \<open>strerror of a failing os.open\<close>
  temp_fault :: "exc option"           \<comment> \<open>NamedTemporaryFile raises\<close>
  dump_fault :: "exc option"           \<comment> \<open>json.dump or handle.close raises\<close>
  replace_fault :: "exc option"        \<comment> \<open>os.replace raises\<close>
  remove_fault :: bool                 \<comment> \<open>os.remove raises OSError\<close>
  unlink_fault :: bool                 \<comment> \<open>os.unlink raises OSError\<close>
  dumps :: "dict \<Rightarrow> string"
  loads :: decoder
  clock_now :: rat
  proc :: "string list \<Rightarrow> fs \<Rightarrow> child \<times> fs"
  gap :: "fs \<Rightarrow> fs"                     \<comment> \<open>other processes, between the tamper check and the rename\<close>

text \<open>The checks before anything touches the disk: the resolved source, the encoder, the output
  path and the staging path.\<close>

definition prepare :: "op_env \<Rightarrow> string \<Rightarrow> encode_request \<Rightarrow> (string \<times> string \<times> string \<times> string) result" where
  "prepare env jid req =
     bind_res (validate_source_path (view env) (roots env) (source_path req) None) (\<lambda>src.
     bind_res (find_preset (preset_json req) (preset_name req)) (\<lambda>preset.
     bind_res (preset_encoder preset) (\<lambda>encoder.
     bind_res (preset_extension preset) (\<lambda>extension.
     bind_res (derive_output_path src jid extension) (\<lambda>dst.
     bind_res (realpath (view env) dst) (\<lambda>r.
       if r = src then Inl (PathNotAllowed OutputCollidesWithSource)
       else bind_res (derive_staging_path src jid extension (token_hex env)) (\<lambda>staging.
         Inr (src, encoder, dst, staging))))))))"

definition claim_staging :: "op_env \<Rightarrow> string \<Rightarrow> fs \<Rightarrow> (int \<times> fs) result" where
  "claim_staging env staging s =
     (case open_fault env of
        Some strerror \<Rightarrow> Inl (PathNotAllowed (StagingNotClaimed strerror))
      | None \<Rightarrow>
          (case open_excl staging s of
             None \<Rightarrow> Inl (PathNotAllowed (StagingNotClaimed ''File exists''))
           | Some r \<Rightarrow> Inr r))"

definition create_temp :: "op_env \<Rightarrow> fs \<Rightarrow> (int \<times> fs) result" where
  "create_temp env s =
     (case temp_fault env of
        Some e \<Rightarrow> Inl e
      | None \<Rightarrow>
          (case open_excl (temp_name env) s of
             None \<Rightarrow> Inl (OSError ''File exists'')
           | Some r \<Rightarrow> Inr r))"

definition dump_preset :: "op_env \<Rightarrow> dict \<Rightarrow> int \<Rightarrow> fs \<Rightarrow> unit result \<times> fs" where
  "dump_preset env doc handle s =
     (case dump_fault env of
        Some e \<Rightarrow> (Inl e, close_fd handle s)
      | None \<Rightarrow> (Inr (), close_fd handle
          (case fstat_ino s handle of Some i \<Rightarrow> write_inode i (dumps env doc) s | None \<Rightarrow> s)))"

definition remove_partial :: "op_env \<Rightarrow> string \<Rightarrow> fs \<Rightarrow> fs" where
  "remove_partial env path s =
     (if lexists s path then
        (if remove_fault env then s
         else (case remove_name path s of Some s' \<Rightarrow> s' | None \<Rightarrow> s))
      else s)"

definition unlink_temp :: "op_env \<Rightarrow> fs \<Rightarrow> fs" where
  "unlink_temp env s =
     (if unlink_fault env then s
      else (case remove_name (temp_name env) s of Some s' \<Rightarrow> s' | None \<Rightarrow> s))"

text \<open>What the callbacks write to the job: on_progress is setattr, on_eta is set_eta.\<close>

fun callback_writes :: "rat \<Rightarrow> callback \<Rightarrow> job_write list" where
  "callback_writes clock (OnProgress p) = [SetProgress p]"
| "callback_writes clock (OnEta n) = set_eta clock n"

text \<open>The part under the except clause: the encode, the tamper check, the release of the descriptor
  and the rename.  The result says whether the descriptor is still open.\<close>

definition encode_and_publish ::
  "op_env \<Rightarrow> string list \<Rightarrow> string \<Rightarrow> string \<Rightarrow> int \<Rightarrow> fs \<Rightarrow> unit result \<times> bool \<times> job_write list \<times> fs" where
  "encode_and_publish env cmd staging dst fd s =
     (case proc env cmd s of (child, s1) \<Rightarrow>
       (let r = run_encode (loads env) (\<lambda>_. None) True child;
            ws = concat (map (callback_writes (clock_now env)) (calls r)) in
        case encode_outcome r of
          Inl e \<Rightarrow> (Inl e, True, ws, s1)
        | Inr _ \<Rightarrow>
            (case (fstat_ino s1 fd, stat_ino s1 staging) of
               (Some i, Some j) \<Rightarrow>
                 if i \<noteq> j then (Inl (PathNotAllowed StagingReplaced), True, ws, s1)
                 else (let s2 = gap env (close_fd fd s1) in
                   case replace_fault env of
                     Some e \<Rightarrow> (Inl e, False, ws, s2)
                   | None \<Rightarrow>
                       (case replace_name staging dst s2 of
                          None \<Rightarrow> (Inl (OSError ''replace''), False, ws, s2)
                        | Some s3 \<Rightarrow> (Inr (), False, ws, s3)))
             | _ \<Rightarrow> (Inl (OSError ''stat''), True, ws, s1))))"

text \<open>except BaseException: release the claim, remove the partial output, raise again.\<close>

definition withdraw :: "op_env \<Rightarrow> string \<Rightarrow> int \<Rightarrow> unit result \<Rightarrow> bool \<Rightarrow> fs \<Rightarrow> bool \<times> fs" where
  "withdraw env staging fd res fd_open s =
     (case res of
        Inr _ \<Rightarrow> (fd_open, s)
      | Inl _ \<Rightarrow> (False, remove_partial env staging (if fd_open then close_fd fd s else s)))"

text \<open>finally: release the descriptor if it is still open, remove the preset file.\<close>

definition finish_op :: "op_env \<Rightarrow> int \<Rightarrow> bool \<Rightarrow> fs \<Rightarrow> fs" where
  "finish_op env fd fd_open s = unlink_temp env (if fd_open then close_fd fd s else s)"

definition run_encode_job ::
  "op_env \<Rightarrow> string \<Rightarrow> encode_request \<Rightarrow> fs \<Rightarrow> unit result \<times> job_write list \<times> fs" where
  "run_encode_job env jid req s =
     (case prepare env jid req of
        Inl e \<Rightarrow> (Inl e, [], s)
      | Inr (src, encoder, dst, staging) \<Rightarrow>
          (case claim_staging env staging s of
             Inl e \<Rightarrow> (Inl e, [], s)
           | Inr (fd, s1) \<Rightarrow>
               (let ws = [SetEncoder encoder, SetOutput dst, SetMessage ''Encoding''] in
                case create_temp env s1 of
                  Inl e \<Rightarrow> (Inl e, ws, s1)
                | Inr (handle, s2) \<Rightarrow>
                    (case dump_preset env (preset_json req) handle s2 of
                       (Inl e, s3) \<Rightarrow> (Inl e, ws, finish_op env fd True s3)
                     | (Inr _, s3) \<Rightarrow>
                         (let cmd = build_encode_command (hb_bin env) src staging (temp_name env)
                                      (preset_name req) in
                          case encode_and_publish env cmd staging dst fd s3 of
                            (res, fd_open, reports, s4) \<Rightarrow>
                              (case withdraw env staging fd res fd_open s4 of
                                 (fd_open', s5) \<Rightarrow>
                                   (res, ws @ reports, finish_op env fd fd_open' s5)))))))"

section \<open>Reaching the encode\<close>

text \<open>The command, the staging and output names, the descriptor and the file system with which the
  operation starts HandBrake, when it gets that far.\<close>

definition encode_entry ::
  "op_env \<Rightarrow> string \<Rightarrow> encode_request \<Rightarrow> fs \<Rightarrow> (string list \<times> string \<times> string \<times> int \<times> fs) option" where
  "encode_entry env jid req s =
     (case prepare env jid req of
        Inr (src, encoder, dst, staging) \<Rightarrow>
          (case claim_staging env staging s of
             Inr (fd, s1) \<Rightarrow>
               (case create_temp env s1 of
                  Inr (handle, s2) \<Rightarrow>
                    (case dump_preset env (preset_json req) handle s2 of
                       (Inr _, s3) \<Rightarrow> Some (build_encode_command (hb_bin env) src staging (temp_name env)
                          (preset_name req), staging, dst, fd, s3)
                     | _ \<Rightarrow> None)
                | _ \<Rightarrow> None)
           | _ \<Rightarrow> None)
      | _ \<Rightarrow> None)"

lemma prepare_Inr:
  assumes "prepare env jid req = Inr (src, encoder, dst, staging)"
  obtains extension where "validate_source_path (view env) (roots env) (source_path req) None = Inr src"
    and "derive_output_path src jid extension = Inr dst"
    and "derive_staging_path src jid extension (token_hex env) = Inr staging"
    and "realpath (view env) dst \<noteq> Inr src"
  using assms by (auto simp: prepare_def bind_res_Inr split: sum.splits if_splits)

lemma prepare_names: "prepare env jid req = Inr (src, encoder, dst, staging) \<Longrightarrow> staging \<noteq> dst"
  by (elim prepare_Inr) (use sibling_names in blast)

lemma claim_staging_Inr:
  "claim_staging env staging s = Inr (fd, s1) \<longleftrightarrow> open_fault env = None \<and> open_excl staging s = Some (fd, s1)"
  by (auto simp: claim_staging_def split: option.splits)

lemma create_temp_Inr:
  "create_temp env s = Inr (h, s1) \<longleftrightarrow> temp_fault env = None \<and> open_excl (temp_name env) s = Some (h, s1)"
  by (auto simp: create_temp_def split: option.splits)

lemma write_inode_frame [simp]:
  "entry_at (write_inode i x s) = entry_at s" "fstat_ino (write_inode i x s) = fstat_ino s"
  by (simp_all add: write_inode_def entry_at_def fstat_ino_def fun_eq_iff)

lemma dump_preset_frame:
  "dump_preset env doc h s = (r, s') \<Longrightarrow>
     entry_at s' = entry_at s \<and> fstat_ino s' = (fstat_ino s)(h := None) \<and> (r = Inr () \<longleftrightarrow> dump_fault env = None)"
  by (auto simp: dump_preset_def fs_claim.close_law split: option.splits)

lemma remove_name_Some:
  "remove_name p s = Some s' \<Longrightarrow>
     entry_at s' = (entry_at s)(p := None) \<and> fstat_ino s' = fstat_ino s \<and> contents s' = contents s"
  using fs_claim.remove_law [of p s s'] by (auto simp: remove_name_def split: option.splits entry.splits)

lemma remove_name_None:
  "remove_name p s = None \<Longrightarrow> entry_at s p = None \<or> (\<exists>i. entry_at s p = Some (EDir i))"
  by (auto simp: remove_name_def split: option.splits entry.splits)

lemma unlink_temp_frame:
  "fstat_ino (unlink_temp env s) = fstat_ino s \<and> contents (unlink_temp env s) = contents s \<and>
   (\<forall>p. p \<noteq> temp_name env \<longrightarrow> entry_at (unlink_temp env s) p = entry_at s p)"
  by (cases "remove_name (temp_name env) s") (auto simp: unlink_temp_def dest: remove_name_Some)

lemma unlink_temp_gone:
  "\<not> unlink_fault env \<Longrightarrow> \<forall>i. entry_at s (temp_name env) \<noteq> Some (EDir i) \<Longrightarrow>
     entry_at (unlink_temp env s) (temp_name env) = None"
  by (cases "remove_name (temp_name env) s")
    (auto simp: unlink_temp_def dest: remove_name_Some remove_name_None)

lemma remove_partial_frame:
  "fstat_ino (remove_partial env p s) = fstat_ino s \<and> contents (remove_partial env p s) = contents s \<and>
   (\<forall>q. q \<noteq> p \<longrightarrow> entry_at (remove_partial env p s) q = entry_at s q)"
  by (cases "remove_name p s") (auto simp: remove_partial_def dest: remove_name_Some)

lemma remove_partial_gone:
  "\<not> remove_fault env \<Longrightarrow> \<forall>i. entry_at s p \<noteq> Some (EDir i) \<Longrightarrow> entry_at (remove_partial env p s) p = None"
  by (cases "remove_name p s")
    (auto simp: remove_partial_def lexists_def dest: remove_name_Some remove_name_None)

lemma contents_close [simp]: "contents (close_fd d s) = contents s"
  by (simp add: close_fd_def)

text \<open>Once the preset file is written or its writing has failed: the staging name is a fresh file,
  the descriptor is open on it, the preset file exists, and nothing else has changed.\<close>

lemma claimed_state:
  assumes "open_excl staging s = Some (fd, s1)"
  shows "entry_at s1 = (entry_at s)(staging \<mapsto> EFile (fresh_inode s)) \<and> entry_at s staging = None \<and>
    fstat_ino s1 = (fstat_ino s)(fd \<mapsto> fresh_inode s) \<and> fstat_ino s fd = None"
  using assms fresh_fd_unused [of s]
  by (auto simp: open_excl_def lexists_def Let_def entry_at_def fstat_ino_def fun_eq_iff split: if_splits)

lemma setup_state:
  assumes "open_excl staging s = Some (fd, s1)" and "open_excl (temp_name env) s1 = Some (h, s2)"
    and "dump_preset env doc h s2 = (r, s3)"
  shows "fstat_ino s3 = (fstat_ino s)(fd \<mapsto> fresh_inode s) \<and>
    entry_at s3 = (entry_at s)(staging \<mapsto> EFile (fresh_inode s), temp_name env \<mapsto> EFile (fresh_inode s1)) \<and>
    temp_name env \<noteq> staging"
proof -
  note c = claimed_state [OF assms(1)] claimed_state [OF assms(2)] dump_preset_frame [OF assms(3)]
  have h: "fstat_ino s1 h = None" "temp_name env \<noteq> staging" using c by auto
  have "fstat_ino s3 = fstat_ino s1" using c h(1) by (simp add: fun_upd_idem)
  then show ?thesis using c h(2) by simp
qed

lemma dump_preset_content:
  assumes "open_excl p s = Some (h, s1)" and "dump_preset env doc h s1 = (Inr u, s2)"
  shows "\<exists>j. entry_at s2 p = Some (EFile j) \<and> content_of s2 j = Some (dumps env doc)"
proof -
  let ?j = "fresh_inode s"
  have c: "entry_at s1 = (entry_at s)(p \<mapsto> EFile ?j)" "fstat_ino s1 h = Some ?j"
    using claimed_state [OF assms(1)] by auto
  then have "s2 = close_fd h (write_inode ?j (dumps env doc) s1)"
    using assms(2) by (auto simp: dump_preset_def split: option.splits)
  then have "entry_at s2 p = Some (EFile ?j) \<and> content_of s2 ?j = Some (dumps env doc)"
    using c by (simp add: fs_claim.close_law content_of_def) (simp add: write_inode_def)
  then show ?thesis by blast
qed

lemma encode_entry_state:
  assumes "encode_entry env jid req s = Some (cmd, staging, dst, fd, s0)"
  obtains i j where "entry_at s staging = None" and "fstat_ino s fd = None"
    and "i \<notin> set (inodes_in_use s)" and "fstat_ino s0 = (fstat_ino s)(fd \<mapsto> i)"
    and "entry_at s0 = (entry_at s)(staging \<mapsto> EFile i, temp_name env \<mapsto> EFile j)"
    and "staging \<noteq> dst" and "temp_name env \<noteq> staging"
proof -
  obtain src encoder h s1 s2 r where p: "prepare env jid req = Inr (src, encoder, dst, staging)"
    and o1: "open_excl staging s = Some (fd, s1)" and o2: "open_excl (temp_name env) s1 = Some (h, s2)"
    and d: "dump_preset env (preset_json req) h s2 = (r, s0)"
    using assms
    by (auto simp: encode_entry_def claim_staging_Inr create_temp_Inr split: sum.splits prod.splits)
  have "fresh_inode s \<notin> set (inodes_in_use s)" using fresh_inode_unused by blast
  then show thesis
    using that setup_state [OF o1 o2 d] claimed_state [OF o1] prepare_names [OF p] by blast
qed

lemma run_entered:
  assumes "encode_entry env jid req s = Some (cmd, staging, dst, fd, s0)"
    and "encode_and_publish env cmd staging dst fd s0 = (res, fd_open, reports, s4)"
    and "withdraw env staging fd res fd_open s4 = (fd_open', s5)"
  shows "\<exists>encoder. run_encode_job env jid req s =
    (res, [SetEncoder encoder, SetOutput dst, SetMessage ''Encoding''] @ reports, finish_op env fd fd_open' s5)"
  using assms
  by (auto simp: encode_entry_def run_encode_job_def Let_def split: sum.splits prod.splits)

text \<open>The outcomes of the part under the except clause.\<close>

lemma encode_and_publish_Inr:
  "encode_and_publish env cmd staging dst fd s0 = (Inr u, fd_open, ws, s4) \<Longrightarrow>
     \<not> fd_open \<and> (\<exists>i. fstat_ino (snd (proc env cmd s0)) fd = Some i \<and> stat_ino (snd (proc env cmd s0)) staging = Some i) \<and>
     replace_name staging dst (gap env (close_fd fd (snd (proc env cmd s0)))) = Some s4"
  by (auto simp: encode_and_publish_def Let_def split: prod.splits sum.splits option.splits if_splits)

lemma encode_and_publish_Inl:
  "encode_and_publish env cmd staging dst fd s0 = (Inl e, fd_open, ws, s4) \<Longrightarrow>
     s4 = (if fd_open then snd (proc env cmd s0) else gap env (close_fd fd (snd (proc env cmd s0))))"
  by (auto simp: encode_and_publish_def Let_def split: prod.splits sum.splits option.splits if_splits)

section \<open>Properties\<close>

text \<open>Other processes do not touch the service's open descriptors: they are private to the service and
  closed in the child.\<close>

definition descriptors_private :: "op_env \<Rightarrow> bool" where
  "descriptors_private env \<longleftrightarrow> (\<forall>cmd s. fds (snd (proc env cmd s)) = fds s \<and> fds (gap env s) = fds s)"

lemma private_fstat:
  "descriptors_private env \<Longrightarrow> fstat_ino (snd (proc env cmd s)) = fstat_ino s \<and> fstat_ino (gap env s) = fstat_ino s"
  by (simp add: descriptors_private_def fstat_ino_def fun_eq_iff)

lemma finish_op_frame:
  "contents (finish_op env fd b s) = contents s \<and>
   fstat_ino (finish_op env fd b s) = (if b then (fstat_ino s)(fd := None) else fstat_ino s) \<and>
   (\<forall>p. p \<noteq> temp_name env \<longrightarrow> entry_at (finish_op env fd b s) p = entry_at s p)"
  using unlink_temp_frame [of env s] unlink_temp_frame [of env "close_fd fd s"]
  by (simp add: finish_op_def fs_claim.close_law)

text \<open>C6. Success publishes exactly what was claimed: the staging name was free and is bound to an
  inode no name or descriptor of the service referred to; when the operation returns normally,
  that inode is what the staging path led to after the encode, the output name is bound to the entry
  found at the staging name at the rename (replacing whatever stood there, a symbolic link included,
  without touching any file contents), the staging name is gone, unless the output name was by then
  a second link to the very file at the staging name, in which case the rename changes nothing and
  the staging name stays; no other name has changed since the rename began, and no descriptor is left
  open.  So the claimed file itself is published when nobody touches the staging name between the
  check and the rename.\<close>

theorem run_encode_job_publishes:
  assumes "encode_entry env jid req s = Some (cmd, staging, dst, fd, s0)"
    and "run_encode_job env jid req s = (Inr (), ws, s')"
    and "descriptors_private env" and "temp_name env \<noteq> dst"
    and "s1 = snd (proc env cmd s0)" and "s2 = gap env (close_fd fd s1)"
  shows "(\<exists>i. i \<notin> set (inodes_in_use s) \<and> entry_at s0 staging = Some (EFile i) \<and> stat_ino s1 staging = Some i) \<and>
    entry_at s staging = None \<and>
    entry_at s' staging = (if same_file (entry_at s2 staging) (entry_at s2 dst) then entry_at s2 staging else None) \<and>
    entry_at s' dst = entry_at s2 staging \<and> entry_at s' dst \<noteq> None \<and>
    (\<forall>p. p \<notin> {staging, dst, temp_name env} \<longrightarrow> entry_at s' p = entry_at s2 p) \<and>
    contents s' = contents s2 \<and> fstat_ino s' = fstat_ino s"
proof -
  obtain i j where st: "entry_at s staging = None" "fstat_ino s fd = None" "i \<notin> set (inodes_in_use s)"
    "fstat_ino s0 = (fstat_ino s)(fd \<mapsto> i)" "entry_at s0 = (entry_at s)(staging \<mapsto> EFile i, temp_name env \<mapsto> EFile j)"
    "staging \<noteq> dst" "temp_name env \<noteq> staging"
    using encode_entry_state [OF assms(1)] .
  obtain res fd_open reports s4 where e: "encode_and_publish env cmd staging dst fd s0 = (res, fd_open, reports, s4)"
    by (metis prod_cases4)
  obtain fd' s5 where w: "withdraw env staging fd res fd_open s4 = (fd', s5)" by force
  have res: "res = Inr ()" "s' = finish_op env fd fd' s5"
    using run_entered [OF assms(1) e w] assms(2) by auto
  note p = encode_and_publish_Inr [OF e [unfolded res]]
  have r: "replace_name staging dst s2 = Some s4" "stat_ino s1 staging = Some i" "\<not> fd'" "s5 = s4"
    using p w res(1) private_fstat [OF assms(3), of cmd s0] st(4) assms(5,6) by (auto simp: withdraw_def)
  have moved: "entry_at s4 dst = entry_at s2 staging" "entry_at s4 dst \<noteq> None"
    "entry_at s4 staging = (if same_file (entry_at s2 staging) (entry_at s2 dst) then entry_at s2 staging else None)"
    "\<forall>q. q \<noteq> staging \<and> q \<noteq> dst \<longrightarrow> entry_at s4 q = entry_at s2 q"
    using fs_claim.publish_moves [OF r(1) st(6)] by blast+
  have keep: "contents s4 = contents s2" "fstat_ino s4 = fstat_ino s2"
    using fs_claim.publish_law [OF r(1)] replace_name_Some [OF r(1)] by metis+
  have "fstat_ino s2 = (fstat_ino s1)(fd := None)"
    using private_fstat [OF assms(3)] by (simp add: assms(6) fs_claim.close_law)
  then have "fstat_ino s4 = fstat_ino s"
    using keep(2) private_fstat [OF assms(3), of cmd s0] st(2,4) assms(5) by (auto simp: fun_eq_iff)
  then show ?thesis
    using st moved keep(1) r(2) finish_op_frame [of env fd fd' s5] assms(4)
    by (simp add: res(2) r(3,4))
qed

text \<open>C7. Failure leaves no partial output: whatever makes an encode that has started fail (HandBrake's
  exit, a cancellation, a timeout, a replaced staging file, a failing rename), the staging name is
  gone afterwards, the output name and every other name are as the encode (or, when the rename fails,
  whoever acted before it) left them, no contents are touched and no descriptor is left open, provided
  the one os.remove does not itself fail.\<close>

theorem run_encode_job_withdraws:
  assumes "encode_entry env jid req s = Some (cmd, staging, dst, fd, s0)"
    and "run_encode_job env jid req s = (Inl e, ws, s')"
    and "descriptors_private env" and "\<not> remove_fault env"
    and "s1 = snd (proc env cmd s0)" and "s2 = gap env (close_fd fd s1)"
    and "\<forall>i. entry_at s1 staging \<noteq> Some (EDir i)" and "\<forall>i. entry_at s2 staging \<noteq> Some (EDir i)"
  shows "entry_at s' staging = None \<and> fstat_ino s' = fstat_ino s \<and>
    (\<exists>left\<in>{s1, s2}. contents s' = contents left \<and>
       (\<forall>p. p \<notin> {staging, temp_name env} \<longrightarrow> entry_at s' p = entry_at left p))"
proof -
  obtain i j where st: "fstat_ino s fd = None" "fstat_ino s0 = (fstat_ino s)(fd \<mapsto> i)" "temp_name env \<noteq> staging"
    using encode_entry_state [OF assms(1)] .
  obtain res fd_open reports s4 where e: "encode_and_publish env cmd staging dst fd s0 = (res, fd_open, reports, s4)"
    by (metis prod_cases4)
  obtain fd' s5 where w: "withdraw env staging fd res fd_open s4 = (fd', s5)" by force
  have res: "res = Inl e" "s' = finish_op env fd fd' s5"
    using run_entered [OF assms(1) e w] assms(2) by auto
  have "s4 = (if fd_open then s1 else s2)"
    using encode_and_publish_Inl [OF e [unfolded res]] assms(5,6) by simp
  then have s5: "s5 = remove_partial env staging (if fd_open then close_fd fd s1 else s2)" "\<not> fd'"
    using w res(1) by (auto simp: withdraw_def)
  have fd: "(fstat_ino s1)(fd := None) = fstat_ino s" "fstat_ino s2 = fstat_ino s"
    using private_fstat [OF assms(3)] st(1,2) assms(5,6) by (auto simp: fun_eq_iff fs_claim.close_law)
  have "entry_at s5 staging = None"
    using remove_partial_gone [OF assms(4)] assms(7,8) by (simp add: s5(1) fs_claim.close_law)
  then show ?thesis
    using remove_partial_frame [of env staging "if fd_open then close_fd fd s1 else s2"]
      finish_op_frame [of env fd fd' s5] st(3) fd
    by (cases fd_open) (simp_all add: res(2) s5 fs_claim.close_law)
qed

lemma setup_exit_releases:
  assumes "encode_entry env jid req s = None" and run: "run_encode_job env jid req s = (res, ws, s')"
  shows "fstat_ino s' = fstat_ino s \<or>
    (\<exists>staging fd s1 e. claim_staging env staging s = Inr (fd, s1) \<and> create_temp env s1 = Inl e \<and> res = Inl e)"
proof (cases "prepare env jid req")
  case (Inl e)
  then show ?thesis using run by (simp add: run_encode_job_def)
next
  case (Inr q)
  obtain src encoder dst staging where q: "q = (src, encoder, dst, staging)" by (cases q)
  show ?thesis
  proof (cases "claim_staging env staging s")
    case (Inl e)
    then show ?thesis using run Inr q by (simp add: run_encode_job_def)
  next
    case c: (Inr c)
    obtain fd s1 where c': "claim_staging env staging s = Inr (fd, s1)" using c by (cases c) simp
    show ?thesis
    proof (cases "create_temp env s1")
      case (Inl e)
      then show ?thesis using run Inr q c' by (auto simp: run_encode_job_def Let_def)
    next
      case t: (Inr t)
      obtain h s2 where t': "create_temp env s1 = Inr (h, s2)" using t by (cases t) simp
      obtain r s3 where d: "dump_preset env (preset_json req) h s2 = (r, s3)" by force
      obtain e where "r = Inl e" using assms Inr q c' t' d by (cases r) (simp_all add: encode_entry_def)
      then have s': "s' = finish_op env fd True s3"
        using run Inr q c' t' d by (simp add: run_encode_job_def Let_def)
      have "fstat_ino s3 = (fstat_ino s)(fd \<mapsto> fresh_inode s)" "fstat_ino s fd = None"
        using setup_state claimed_state c' t' d unfolding claim_staging_Inr create_temp_Inr by blast+
      then have "fstat_ino s' = fstat_ino s"
        using finish_op_frame [of env fd True s3] by (auto simp: s' fun_eq_iff)
      then show ?thesis ..
    qed
  qed
qed

lemma encode_exit_releases:
  assumes "descriptors_private env" and x: "encode_entry env jid req s = Some (cmd, staging, dst, fd, s0)"
    and run: "run_encode_job env jid req s = (res, ws, s')"
  shows "fstat_ino s' = fstat_ino s"
proof -
  obtain i where st: "fstat_ino s fd = None" "fstat_ino s0 = (fstat_ino s)(fd \<mapsto> i)"
    using encode_entry_state [OF x] by metis
  obtain res' fd_open reports s4 where e: "encode_and_publish env cmd staging dst fd s0 = (res', fd_open, reports, s4)"
    by (metis prod_cases4)
  obtain fd' s5 where w: "withdraw env staging fd res' fd_open s4 = (fd', s5)" by force
  have s': "s' = finish_op env fd fd' s5" using run_entered [OF x e w] run by auto
  have closed: "(fstat_ino (snd (proc env cmd s0)))(fd := None) = fstat_ino s"
    using private_fstat [OF assms(1), of cmd s0] st by (auto simp: fun_eq_iff)
  then have gap: "fstat_ino (gap env (close_fd fd (snd (proc env cmd s0)))) = fstat_ino s"
    using private_fstat [OF assms(1)] by (simp add: fs_claim.close_law)
  have "fstat_ino s5 = fstat_ino s \<and> \<not> fd'"
  proof (cases res')
    case (Inl er)
    then have "s4 = (if fd_open then snd (proc env cmd s0) else gap env (close_fd fd (snd (proc env cmd s0))))"
      using encode_and_publish_Inl e by blast
    then have "\<exists>t. s5 = remove_partial env staging t \<and> fstat_ino t = fstat_ino s" "\<not> fd'"
      using w Inl closed gap by (auto simp: withdraw_def fs_claim.close_law)
    then show ?thesis using remove_partial_frame by auto
  next
    case (Inr u)
    then have "replace_name staging dst (gap env (close_fd fd (snd (proc env cmd s0)))) = Some s4" "s5 = s4" "\<not> fd'"
      using encode_and_publish_Inr e w by (fastforce simp: withdraw_def)+
    then show ?thesis using fs_claim.publish_law gap by simp
  qed
  then show ?thesis using finish_op_frame [of env fd fd' s5] by (simp add: s')
qed

text \<open>C25. Every exit releases the descriptor: on every path through the operation the service ends
  with exactly the descriptors it began with, with one exception: the temporary preset file
  cannot be created after the staging file was claimed.\<close>

theorem run_encode_job_releases_descriptors:
  assumes "descriptors_private env" and "run_encode_job env jid req s = (res, ws, s')"
  shows "fstat_ino s' = fstat_ino s \<or>
    (\<exists>staging fd s1 e. claim_staging env staging s = Inr (fd, s1) \<and> create_temp env s1 = Inl e \<and> res = Inl e)"
proof (cases "encode_entry env jid req s")
  case None
  then show ?thesis using setup_exit_releases assms(2) by blast
next
  case (Some x)
  then show ?thesis using encode_exit_releases [OF assms(1)] assms(2) by (cases x) blast
qed

text \<open>C29. A refused operation leaves no trace: when the output would resolve to the source, or when
  anything at all (a file, a directory, a dangling link) already stands at the staging name, the
  operation raises PathNotAllowed with the file system and the job untouched.\<close>

theorem run_encode_job_refuses_collisions:
  assumes "validate_source_path (view env) (roots env) (source_path req) None = Inr src"
    and "find_preset (preset_json req) (preset_name req) = Inr preset"
    and "preset_encoder preset = Inr encoder" and "preset_extension preset = Inr extension"
    and "derive_output_path src jid extension = Inr dst"
    and "derive_staging_path src jid extension (token_hex env) = Inr staging"
    and "realpath (view env) dst = Inr src \<or>
      (\<exists>r. realpath (view env) dst = Inr r) \<and> lexists s staging \<and> open_fault env = None"
  shows "\<exists>why. run_encode_job env jid req s = (Inl (PathNotAllowed why), [], s) \<and>
    why = (if realpath (view env) dst = Inr src then OutputCollidesWithSource
           else StagingNotClaimed ''File exists'')"
proof (cases "realpath (view env) dst = Inr src")
  case True
  then have "prepare env jid req = Inl (PathNotAllowed OutputCollidesWithSource)"
    using assms by (simp add: prepare_def)
  then show ?thesis using True by (simp add: run_encode_job_def)
next
  case False
  then obtain r where "realpath (view env) dst = Inr r" "r \<noteq> src" using assms(7) by auto
  then have "prepare env jid req = Inr (src, encoder, dst, staging)"
    using assms by (simp add: prepare_def)
  moreover have "claim_staging env staging s = Inl (PathNotAllowed (StagingNotClaimed ''File exists''))"
    using assms(7) False by (simp add: claim_staging_def open_excl_def)
  ultimately show ?thesis using False by (simp add: run_encode_job_def)
qed

text \<open>C30. What the clean-up misses: if the temporary preset file cannot be created, the claimed staging
  file stays and its descriptor stays open for good; if the preset cannot be written into it,
  the descriptor is released but the staging file stays, since neither failure passes the
  except clause that removes it.\<close>

theorem setup_failure_leaves_staging:
  assumes "prepare env jid req = Inr (src, encoder, dst, staging)"
    and "open_fault env = None" and "\<not> lexists s staging"
    and "temp_fault env = Some e \<or>
      temp_fault env = None \<and> dump_fault env = Some e \<and> \<not> lexists s (temp_name env) \<and> temp_name env \<noteq> staging"
    and "run_encode_job env jid req s = (res, ws, s')"
  shows "res = Inl e \<and> (\<exists>i. entry_at s' staging = Some (EFile i) \<and> i \<notin> set (inodes_in_use s) \<and>
    (if temp_fault env \<noteq> None then \<exists>fd. fstat_ino s fd = None \<and> fstat_ino s' = (fstat_ino s)(fd \<mapsto> i)
     else fstat_ino s' = fstat_ino s))"
proof -
  obtain fd s1 where o1: "open_excl staging s = Some (fd, s1)"
    using assms(3) by (auto simp: open_excl_def Let_def)
  note c = claimed_state [OF o1]
  have cl: "claim_staging env staging s = Inr (fd, s1)" using o1 assms(2) by (simp add: claim_staging_Inr)
  have fresh: "fresh_inode s \<notin> set (inodes_in_use s)" using fresh_inode_unused by blast
  show ?thesis
  proof (cases "temp_fault env")
    case (Some e')
    then have "res = Inl e" "s' = s1"
      using assms(1,4,5) cl by (auto simp: run_encode_job_def create_temp_def Let_def)
    then show ?thesis using c fresh Some by auto
  next
    case None
    then have f: "dump_fault env = Some e" "\<not> lexists s (temp_name env)" "temp_name env \<noteq> staging"
      using assms(4) by auto
    then have "\<not> lexists s1 (temp_name env)" using c by (simp add: lexists_def)
    then obtain h s2 where o2: "open_excl (temp_name env) s1 = Some (h, s2)"
      by (auto simp: open_excl_def Let_def)
    obtain s3 where d: "dump_preset env (preset_json req) h s2 = (Inl e, s3)"
      using f(1) by (simp add: dump_preset_def)
    have "res = Inl e" "s' = finish_op env fd True s3"
      using assms(1,5) cl None o2 d by (auto simp: run_encode_job_def create_temp_Inr create_temp_def Let_def)
    then show ?thesis
      using setup_state [OF o1 o2 d] finish_op_frame [of env fd True s3] f(3) fresh None c
      by (auto simp: fun_eq_iff)
  qed
qed

lemma encode_and_publish_writes:
  "encode_and_publish env cmd staging dst fd s0 = (res, b, ws, s1) \<Longrightarrow>
     ws = concat (map (callback_writes (clock_now env))
       (calls (run_encode (loads env) (\<lambda>_. None) True (fst (proc env cmd s0)))))"
  by (auto simp: encode_and_publish_def Let_def split: prod.splits sum.splits option.splits if_splits)

lemma run_encode_job_reports: "list_all is_report (fst (snd (run_encode_job env jid req s)))"
proof -
  have "list_all is_report (callback_writes c x)" for c x
    by (cases x) (simp_all add: set_eta_def)
  then have "list_all is_report ws"
    if "encode_and_publish env cmd staging dst fd s0 = (res, b, ws, s1)" for cmd staging dst fd s0 res b ws s1
    using encode_and_publish_writes [OF that] by (auto simp: list_all_iff)
  then show ?thesis
    by (auto simp: run_encode_job_def Let_def split: sum.split prod.split)
qed

lemma run_encode_job_Inr:
  assumes "run_encode_job env jid req s = (Inr u, ws, s')"
  obtains cmd staging dst fd s0 encoder reports s4 where
    "encode_entry env jid req s = Some (cmd, staging, dst, fd, s0)"
    and "encode_and_publish env cmd staging dst fd s0 = (Inr u, False, reports, s4)"
    and "ws = [SetEncoder encoder, SetOutput dst, SetMessage ''Encoding''] @ reports"
    and "s' = finish_op env fd False s4"
proof -
  have "encode_entry env jid req s \<noteq> None"
    using assms by (auto simp: encode_entry_def run_encode_job_def Let_def split: sum.splits prod.splits)
  then obtain cmd staging dst fd s0 where e: "encode_entry env jid req s = Some (cmd, staging, dst, fd, s0)"
    by (metis option.exhaust prod_cases5)
  obtain res fd_open reports s4 where p: "encode_and_publish env cmd staging dst fd s0 = (res, fd_open, reports, s4)"
    by (metis prod_cases4)
  obtain fd' s5 where w: "withdraw env staging fd res fd_open s4 = (fd', s5)" by force
  obtain encoder where r: "run_encode_job env jid req s =
      (res, [SetEncoder encoder, SetOutput dst, SetMessage ''Encoding''] @ reports, finish_op env fd fd' s5)"
    using run_entered [OF e p w] by blast
  then have res: "res = Inr u" using assms by simp
  then have "\<not> fd_open" using encode_and_publish_Inr p by blast
  then show thesis using that [OF e] p r w res assms by (simp add: withdraw_def)
qed

definition capped_writes :: "job_write list \<Rightarrow> bool" where
  "capped_writes ws \<longleftrightarrow> SetProgress (Inf False) \<notin> set ws \<and> (\<forall>r. SetProgress (Fin r) \<in> set ws \<longrightarrow> r \<le> 100) \<and>
     (\<forall>n. SetEta (Some n) \<in> set ws \<longrightarrow> 0 \<le> n)"

lemma capped_writes_simps [simp]:
  "capped_writes []" "capped_writes (SetEncoder e # ws) \<longleftrightarrow> capped_writes ws"
  "capped_writes (SetOutput d # ws) \<longleftrightarrow> capped_writes ws" "capped_writes (SetMessage t # ws) \<longleftrightarrow> capped_writes ws"
  by (simp_all add: capped_writes_def)

lemma callback_writes_capped:
  "list_all capped cs \<Longrightarrow> capped_writes (concat (map (callback_writes clock) cs))"
proof (induction cs)
  case (Cons c cs)
  then show ?case by (cases c) (auto simp: set_eta_def capped_writes_def)
qed simp


section \<open>Concrete runs\<close>

definition demo_env :: op_env where
  "demo_env = \<lparr>view = demo_os, roots = [''/media1''], hb_bin = ''HandBrakeCLI'', token_hex = ''dead'',
     temp_name = ''/tmp/p.json'', open_fault = None, temp_fault = None, dump_fault = None,
     replace_fault = None, remove_fault = False, unlink_fault = False, dumps = (\<lambda>_. ''{}''),
     loads = (\<lambda>_. DecodeError), clock_now = 0, proc = (\<lambda>cmd s. (demo_child, s)),
     gap = (\<lambda>s. s)\<rparr>"

definition demo_failing :: op_env where
  "demo_failing = demo_env\<lparr>proc := (\<lambda>cmd s. (demo_child\<lparr>exit_code := 3, cancel_set := False\<rparr>, s))\<rparr>"

definition demo_req :: encode_request where
  "demo_req = \<lparr>source_path = ''/media1/Movies/Dune.mkv'',
     preset_json = [(''PresetList'', JList [JDict [(''PresetName'', JStr ''A''),
       (''VideoEncoder'', JStr ''x264''), (''FileFormat'', JStr ''av_mkv'')]])],
     preset_name = ''A''\<rparr>"

definition demo_fs :: fs where
  "demo_fs = \<lparr>names = [(''/media1'', EDir 3), (''/media1/Movies'', EDir 4), (''/media1/Movies/Dune.mkv'', EFile 1),
       (''/media1/Movies/.hbenc-abc123.mkv'', ELink ''/etc/passwd''), (''/etc/passwd'', EFile 2)],
     contents = [(1, ''film''), (2, ''root'')], fds = []\<rparr>"

lemma demo_entry:
  "map_option (\<lambda>(cmd, st, dst, fd, s0). (st, dst)) (encode_entry demo_env ''abc123'' demo_req demo_fs) =
     Some (''/media1/Movies/.hbenc-abc123-dead.mkv'', ''/media1/Movies/.hbenc-abc123.mkv'')"
  "map_option (\<lambda>(cmd, st, dst, fd, s0). (st, dst)) (encode_entry demo_failing ''abc123'' demo_req demo_fs) =
     Some (''/media1/Movies/.hbenc-abc123-dead.mkv'', ''/media1/Movies/.hbenc-abc123.mkv'')"
  by code_simp+

lemma demo_outcome:
  "fst (run_encode_job demo_env ''abc123'' demo_req demo_fs) = Inr ()"
  "fst (run_encode_job demo_failing ''abc123'' demo_req demo_fs) = Inl (HandBrakeError (ExitCode 3))"
  by code_simp+

lemma demo_private: "descriptors_private demo_env" "descriptors_private demo_failing"
  by (simp_all add: descriptors_private_def demo_env_def demo_failing_def)

theorem run_encode_job_publishes_witness:
  "entry_at (snd (snd (run_encode_job demo_env ''abc123'' demo_req demo_fs)))
     ''/media1/Movies/.hbenc-abc123-dead.mkv'' = None \<and>
   content_of (snd (snd (run_encode_job demo_env ''abc123'' demo_req demo_fs))) 2 = Some ''root''"
proof -
  obtain cmd fd s0 where e: "encode_entry demo_env ''abc123'' demo_req demo_fs =
      Some (cmd, ''/media1/Movies/.hbenc-abc123-dead.mkv'', ''/media1/Movies/.hbenc-abc123.mkv'', fd, s0)"
    using demo_entry(1) by auto
  obtain ws s' where r: "run_encode_job demo_env ''abc123'' demo_req demo_fs = (Inr (), ws, s')"
    using demo_outcome(1) by (cases "run_encode_job demo_env ''abc123'' demo_req demo_fs") auto
  have "content_of s' 2 = Some ''root''"
  proof -
    have "content_of (snd (snd (run_encode_job demo_env ''abc123'' demo_req demo_fs))) 2 = Some ''root''"
      by code_simp
    then show ?thesis unfolding r by simp
  qed
  moreover have "entry_at s' ''/media1/Movies/.hbenc-abc123-dead.mkv'' = None"
  proof -
    have t: "temp_name demo_env \<noteq> ''/media1/Movies/.hbenc-abc123.mkv''" by (simp add: demo_env_def)
    obtain i j where s0: "entry_at s0 = (entry_at demo_fs)(''/media1/Movies/.hbenc-abc123-dead.mkv'' \<mapsto> EFile i,
        temp_name demo_env \<mapsto> EFile j)"
      by (rule encode_entry_state [OF e])
    have "entry_at demo_fs ''/media1/Movies/.hbenc-abc123.mkv'' = Some (ELink ''/etc/passwd'')" by code_simp
    then have "entry_at s0 ''/media1/Movies/.hbenc-abc123.mkv'' = Some (ELink ''/etc/passwd'')"
      using t by (simp add: s0)
    then have "\<not> same_file x (entry_at (gap demo_env (close_fd fd (snd (proc demo_env cmd s0)))) ''/media1/Movies/.hbenc-abc123.mkv'')" for x
      by (simp add: demo_env_def fs_claim.close_law same_file_iff)
    then show ?thesis
      using run_encode_job_publishes [OF e r demo_private(1) t refl refl] by presburger
  qed
  ultimately show ?thesis unfolding r snd_conv by (rule conjI [rotated])
qed


theorem run_encode_job_withdraws_witness:
  "entry_at (snd (snd (run_encode_job demo_failing ''abc123'' demo_req demo_fs)))
     ''/media1/Movies/.hbenc-abc123-dead.mkv'' = None"
proof -
  obtain cmd fd s0 where e: "encode_entry demo_failing ''abc123'' demo_req demo_fs =
      Some (cmd, ''/media1/Movies/.hbenc-abc123-dead.mkv'', ''/media1/Movies/.hbenc-abc123.mkv'', fd, s0)"
    using demo_entry(2) by auto
  obtain ws s' where r: "run_encode_job demo_failing ''abc123'' demo_req demo_fs =
      (Inl (HandBrakeError (ExitCode 3)), ws, s')"
    using demo_outcome(2) by (cases "run_encode_job demo_failing ''abc123'' demo_req demo_fs") auto
  have p: "snd (proc demo_failing cmd s0) = s0" "\<not> remove_fault demo_failing"
    and g: "gap demo_failing (close_fd fd s0) = close_fd fd s0"
    by (simp_all add: demo_failing_def demo_env_def)
  obtain i where st: "entry_at s0 ''/media1/Movies/.hbenc-abc123-dead.mkv'' = Some (EFile i)"
    by (rule encode_entry_state [OF e]) auto
  have "\<forall>i. entry_at (snd (proc demo_failing cmd s0)) ''/media1/Movies/.hbenc-abc123-dead.mkv'' \<noteq> Some (EDir i)"
    "\<forall>i. entry_at (gap demo_failing (close_fd fd (snd (proc demo_failing cmd s0))))
       ''/media1/Movies/.hbenc-abc123-dead.mkv'' \<noteq> Some (EDir i)"
    unfolding p(1) g fs_claim.close_law st by (simp_all only: option.inject entry.distinct) simp_all
  then show ?thesis
    unfolding r snd_conv using run_encode_job_withdraws [OF e r demo_private(2) p(2) refl refl] by blast
qed

theorem run_encode_job_releases_descriptors_witness:
  "fstat_ino (snd (snd (run_encode_job demo_failing ''abc123'' demo_req demo_fs))) = fstat_ino demo_fs"
proof -
  obtain ws s' where r: "run_encode_job demo_failing ''abc123'' demo_req demo_fs =
      (Inl (HandBrakeError (ExitCode 3)), ws, s')"
    using demo_outcome(2) by (cases "run_encode_job demo_failing ''abc123'' demo_req demo_fs") auto
  have t: "create_temp demo_failing s1 = Inl e \<Longrightarrow> e \<noteq> HandBrakeError (ExitCode 3)" for s1 e
    by (auto simp: create_temp_def demo_failing_def demo_env_def split: option.splits)
  show ?thesis
    unfolding r snd_conv using run_encode_job_releases_descriptors [OF demo_private(2) r] t by blast
qed

theorem run_encode_job_refuses_collisions_witness:
  "fst (run_encode_job demo_env ''abc123'' demo_req
     (demo_fs\<lparr>names := [(''/media1/Movies/.hbenc-abc123-dead.mkv'', ELink ''/nowhere'')]\<rparr>)) =
   Inl (PathNotAllowed (StagingNotClaimed ''File exists''))"
proof -
  let ?s = "demo_fs\<lparr>names := [(''/media1/Movies/.hbenc-abc123-dead.mkv'', ELink ''/nowhere'')]\<rparr>"
  let ?p = "[(''PresetName'', JStr ''A''), (''VideoEncoder'', JStr ''x264''), (''FileFormat'', JStr ''av_mkv'')]"
  have h: "validate_source_path (view demo_env) (roots demo_env) (source_path demo_req) None =
      Inr ''/media1/Movies/Dune.mkv''"
    "find_preset (preset_json demo_req) (preset_name demo_req) = Inr ?p"
    "preset_encoder ?p = Inr ''x264''" "preset_extension ?p = Inr ''mkv''"
    "derive_output_path ''/media1/Movies/Dune.mkv'' ''abc123'' ''mkv'' = Inr ''/media1/Movies/.hbenc-abc123.mkv''"
    "derive_staging_path ''/media1/Movies/Dune.mkv'' ''abc123'' ''mkv'' (token_hex demo_env) =
      Inr ''/media1/Movies/.hbenc-abc123-dead.mkv''"
    by code_simp+
  have "realpath (view demo_env) ''/media1/Movies/.hbenc-abc123.mkv'' \<noteq> Inr ''/media1/Movies/Dune.mkv''"
    "(\<exists>r. realpath (view demo_env) ''/media1/Movies/.hbenc-abc123.mkv'' = Inr r) \<and>
      lexists ?s ''/media1/Movies/.hbenc-abc123-dead.mkv'' \<and> open_fault demo_env = None"
    by (simp_all add: demo_env_def demo_os_def lexists_def entry_at_def)
  then show ?thesis using run_encode_job_refuses_collisions [OF h, of ?s] by simp
qed

theorem setup_failure_leaves_staging_witness:
  "\<exists>i. entry_at (snd (snd (run_encode_job (demo_env\<lparr>dump_fault := Some (OSError ''No space left'')\<rparr>)
     ''abc123'' demo_req demo_fs))) ''/media1/Movies/.hbenc-abc123-dead.mkv'' = Some (EFile i)"
proof -
  let ?env = "demo_env\<lparr>dump_fault := Some (OSError ''No space left'')\<rparr>"
  have p: "prepare ?env ''abc123'' demo_req = Inr (''/media1/Movies/Dune.mkv'', ''x264'',
      ''/media1/Movies/.hbenc-abc123.mkv'', ''/media1/Movies/.hbenc-abc123-dead.mkv'')" by code_simp
  obtain res ws s' where r: "run_encode_job ?env ''abc123'' demo_req demo_fs = (res, ws, s')"
    using prod_cases3 by blast
  have f: "open_fault ?env = None" "\<not> lexists demo_fs ''/media1/Movies/.hbenc-abc123-dead.mkv''"
    "temp_fault ?env = Some (OSError ''No space left'') \<or> temp_fault ?env = None \<and>
     dump_fault ?env = Some (OSError ''No space left'') \<and> \<not> lexists demo_fs (temp_name ?env) \<and>
     temp_name ?env \<noteq> ''/media1/Movies/.hbenc-abc123-dead.mkv''"
    by (simp_all add: demo_env_def demo_fs_def lexists_def entry_at_def)
  show ?thesis unfolding r snd_conv using setup_failure_leaves_staging [OF p f r] by blast
qed

text \<open>The tamper check follows symbolic links: a process that hard-links the claimed file elsewhere and
  puts a symbolic link to that second name in its place passes the check, and the link itself
  is what gets published.\<close>

definition demo_swapping :: op_env where
  "demo_swapping = demo_env\<lparr>proc := (\<lambda>cmd s. (demo_child, s\<lparr>names :=
     AList.update ''/media1/Movies/.hbenc-abc123-dead.mkv'' (ELink ''../x'')
       (AList.update ''/media1/x'' (the (entry_at s ''/media1/Movies/.hbenc-abc123-dead.mkv'')) (names s))\<rparr>))\<rparr>"

lemma tamper_check_follows_links:
  "fst (run_encode_job demo_swapping ''abc123'' demo_req demo_fs) = Inr ()"
  "entry_at (snd (snd (run_encode_job demo_swapping ''abc123'' demo_req demo_fs)))
     ''/media1/Movies/.hbenc-abc123.mkv'' = Some (ELink ''../x'')"
  by code_simp+

text \<open>A rename onto another link of the same file does nothing: a process that links the claimed file at
  the output name during the encode has the operation return normally with the staging name
  still there.\<close>

definition demo_linking :: op_env where
  "demo_linking = demo_env\<lparr>proc := (\<lambda>cmd s. (demo_child, s\<lparr>names :=
     AList.update ''/media1/Movies/.hbenc-abc123.mkv''
       (the (entry_at s ''/media1/Movies/.hbenc-abc123-dead.mkv'')) (names s)\<rparr>))\<rparr>"

lemma hard_link_leaves_staging:
  "fst (run_encode_job demo_linking ''abc123'' demo_req demo_fs) = Inr ()"
  "entry_at (snd (snd (run_encode_job demo_linking ''abc123'' demo_req demo_fs)))
     ''/media1/Movies/.hbenc-abc123-dead.mkv'' =
   entry_at (snd (snd (run_encode_job demo_linking ''abc123'' demo_req demo_fs)))
     ''/media1/Movies/.hbenc-abc123.mkv''"
  "lexists (snd (snd (run_encode_job demo_linking ''abc123'' demo_req demo_fs)))
     ''/media1/Movies/.hbenc-abc123-dead.mkv''"
  by code_simp+

text \<open>The check and the rename are two calls: a process that puts another file at the staging name between
  them has that file published as the job's output.\<close>

definition demo_late_swap :: op_env where
  "demo_late_swap = demo_env\<lparr>gap := (\<lambda>s. s\<lparr>names :=
     AList.update ''/media1/Movies/.hbenc-abc123-dead.mkv'' (EFile 2) (names s)\<rparr>)\<rparr>"

lemma late_swap_is_published:
  "fst (run_encode_job demo_late_swap ''abc123'' demo_req demo_fs) = Inr ()"
  "entry_at (snd (snd (run_encode_job demo_late_swap ''abc123'' demo_req demo_fs)))
     ''/media1/Movies/.hbenc-abc123.mkv'' = Some (EFile 2)"
  by code_simp+

end
