(* ===== verification/Intake.thy ===== *)
theory Intake
  imports Ops Realpath
begin

text \<open>
  What HandBrake opens.  Path validation, the file system with its symbolic links and the encode
  operation together: the command that starts HandBrake reads the validated source in place and
  writes to the file that the operation has just created beside it.
\<close>

section \<open>Lookup in a growing file system\<close>

lemma walk_path_grows:
  "\<forall>p. entry_at s p \<noteq> None \<longrightarrow> entry_at s' p = entry_at s p \<Longrightarrow>
     walk_path s n cur rest = Some q \<Longrightarrow> walk_path s' n cur rest = Some q"
proof (induction s n cur rest rule: walk_path.induct)
  case (2 s n cur name rest)
  show ?case
  proof (cases "name = [] \<or> name = ''.'' \<or> name = ''..''")
    case True
    then show ?thesis using 2 by (auto simp: walk_path.simps(2))
  next
    case False
    then obtain e where e: "entry_at s (path_text (cur @ [name])) = Some e"
      using 2 by (auto simp: walk_path.simps(2) split: option.splits)
    then have e': "entry_at s' (path_text (cur @ [name])) = Some e" using 2 by force
    show ?thesis
    proof (cases e)
      case (ELink t)
      then obtain m where "n = Suc m" "walk_path s m (if is_abs t then [] else cur) (path_split t @ rest) = Some q"
        using 2 False e by (cases n) (auto simp: walk_path.simps(2))
      then show ?thesis using 2 False e e' ELink by (simp add: walk_path.simps(2))
    qed (use 2 False e e' in \<open>auto simp: walk_path.simps(2) split: if_splits\<close>)
  qed
qed simp

lemma walk_entries:
  "resolved s (cur @ ws) \<Longrightarrow> walk_path s n cur ws = Some q \<Longrightarrow> prefix p ws \<Longrightarrow> p \<noteq> [] \<Longrightarrow>
     entry_at s (path_text (cur @ p)) \<noteq> None"
proof (induction ws arbitrary: cur p)
  case (Cons w ws)
  have w: "w \<noteq> []" "w \<noteq> ''.''" "w \<noteq> ''..''" using Cons.prems(1) by (auto simp: resolved_def plain_word_def)
  have "prefix (cur @ [w]) (cur @ w # ws)" by simp
  then have nl: "link_target s (cur @ [w]) = None" using Cons.prems(1) unfolding resolved_def by blast
  obtain p' where p: "p = w # p'" "prefix p' ws" using Cons.prems(3,4) by (cases p) auto
  obtain e where e: "entry_at s (path_text (cur @ [w])) = Some e"
    using Cons.prems(2) w by (auto simp: walk_path.simps(2) split: option.splits)
  show ?case
  proof (cases "p' = []")
    case False
    then have "ws \<noteq> []" using p(2) by auto
    then have "walk_path s n (cur @ [w]) ws = Some q"
      using Cons.prems(2) w nl e by (auto simp: walk_path.simps(2) link_target_def split: entry.splits)
    then show ?thesis using Cons.IH [of "cur @ [w]" p'] Cons.prems(1) p False by simp
  qed (use p e in simp)
qed simp

lemma resolved_grows:
  assumes "\<forall>p. entry_at s p \<noteq> None \<longrightarrow> entry_at s' p = entry_at s p"
    and "resolved s q" and "walk_path s n [] q = Some q"
  shows "resolved s' q"
proof -
  have "link_target s' p = None" if p: "prefix p q" "p \<noteq> []" for p
  proof -
    have "entry_at s' (path_text p) = entry_at s (path_text p)"
      using walk_entries [of s "[]" q n q p] assms p by simp
    then show ?thesis using assms(2) p by (simp add: resolved_def link_target_def)
  qed
  then show ?thesis using assms(2) by (simp add: resolved_def)
qed

text \<open>A file beside one that can be reached can be reached.\<close>

lemma walk_sibling:
  "resolved s (cur @ ws @ [a]) \<Longrightarrow> walk_path s n cur (ws @ [a]) = Some q \<Longrightarrow> plain_word b \<Longrightarrow> b \<noteq> ''..'' \<Longrightarrow>
     entry_at s (path_text (cur @ ws @ [b])) = Some (EFile i) \<Longrightarrow>
     walk_path s n cur (ws @ [b]) = Some (cur @ ws @ [b])"
proof (induction ws arbitrary: cur)
  case Nil
  then show ?case by (simp add: walk_path.simps(2) plain_word_def)
next
  case (Cons w ws)
  have w: "w \<noteq> []" "w \<noteq> ''.''" "w \<noteq> ''..''" using Cons.prems(1) by (auto simp: resolved_def plain_word_def)
  have "prefix (cur @ [w]) (cur @ w # ws @ [a])" by simp
  then have nl: "link_target s (cur @ [w]) = None" using Cons.prems(1) unfolding resolved_def by simp
  obtain e where e: "entry_at s (path_text (cur @ [w])) = Some e"
    using Cons.prems(2) w by (cases "entry_at s (path_text (cur @ [w]))") (simp_all add: walk_path.simps(2))
  obtain j where j: "e = EDir j"
    using Cons.prems(2) w nl e by (cases e) (simp_all add: walk_path.simps(2) link_target_def)
  have "walk_path s n (cur @ [w]) (ws @ [a]) = Some q" using Cons.prems(2) w e j by (simp add: walk_path.simps(2))
  then have "walk_path s n (cur @ [w]) (ws @ [b]) = Some ((cur @ [w]) @ ws @ [b])"
    using Cons.prems(1,3-5) by (intro Cons.IH) simp_all
  then show ?case using w e j by (simp add: walk_path.simps(2))
qed

lemma sibling_text:
  assumes "\<forall>w\<in>set (ds @ [a]). plain_word w" and "slash \<notin> set b"
  shows "os_path_join (dirname (path_text (ds @ [a]))) b = path_text (ds @ [b])"
proof -
  have a: "slash \<notin> set a" using assms(1) by (simp add: plain_word_def)
  have b: "\<not> is_abs b" using assms(2) by (cases b) (auto simp: is_abs_def)
  show ?thesis
  proof (cases "ds = []")
    case True
    have "dirname (path_text [a]) = [slash]"
      using split_last_slash_append [OF a, of "[slash]"] by (simp add: path_text_def dirname_def)
    then show ?thesis using True b by (simp add: path_text_def os_path_join_def)
  next
    case False
    have l: "last (path_text ds) \<noteq> slash" "path_text ds \<noteq> []"
      using last_path_join [OF False] hd_path_join [OF False] assms(1) by (auto simp: path_text_def)
    have t: "path_text (ds @ [x]) = (path_text ds @ [slash]) @ x" for x
      using path_join_append [OF False, of "[x]"] by (simp add: path_text_def)
    have "split_last_slash (path_text (ds @ [a])) = (path_text ds @ [slash], a)"
      unfolding t using a by (rule split_last_slash_append) simp
    moreover have "path_text ds @ [slash] \<noteq> replicate (Suc (length (path_text ds))) slash"
    proof
      assume eq: "path_text ds @ [slash] = replicate (Suc (length (path_text ds))) slash"
      have "last (path_text ds) \<in> set (path_text ds @ [slash])" using l(2) by simp
      then show False unfolding eq using l(1) by simp
    qed
    ultimately have "dirname (path_text (ds @ [a])) = path_text ds"
      using rstrip_slash [OF l(2,1)] by (simp add: dirname_def Let_def)
    then show ?thesis using l b by (simp only: os_path_join_def t if_False append_assoc simp_thms)
  qed
qed

section \<open>The start of the encode\<close>

text \<open>Claiming the staging name and creating the preset file add names and change none.\<close>

lemma encode_entry_command:
  assumes "encode_entry env jid req s = Some (cmd, staging, dst, fd, s0)"
  obtains src extension k where "validate_source_path (view env) (roots env) (source_path req) None = Inr src"
    and "derive_staging_path src jid extension (token_hex env) = Inr staging"
    and "cmd = build_encode_command (hb_bin env) src staging (temp_name env) (preset_name req)"
    and "\<forall>p. entry_at s p \<noteq> None \<longrightarrow> entry_at s0 p = entry_at s p"
    and "entry_at s0 staging = Some (EFile k)" and "k \<notin> set (inodes_in_use s)"
proof -
  obtain src encoder h s1 s2 r where p: "prepare env jid req = Inr (src, encoder, dst, staging)"
    and o1: "open_excl staging s = Some (fd, s1)" and o2: "open_excl (temp_name env) s1 = Some (h, s2)"
    and d: "dump_preset env (preset_json req) h s2 = (r, s0)"
    and cmd: "cmd = build_encode_command (hb_bin env) src staging (temp_name env) (preset_name req)"
    using assms
    by (auto simp: encode_entry_def claim_staging_Inr create_temp_Inr split: sum.splits prod.splits)
  obtain extension where e: "validate_source_path (view env) (roots env) (source_path req) None = Inr src"
    "derive_staging_path src jid extension (token_hex env) = Inr staging"
    using prepare_Inr [OF p] by metis
  note c = claimed_state [OF o1] claimed_state [OF o2] setup_state [OF o1 o2 d]
  have f: "fresh_inode s \<notin> set (inodes_in_use s)" using fresh_inode_unused by blast
  show thesis by (rule that [OF e cmd _ _ f]) (use c in \<open>auto split: if_splits\<close>)
qed

lemma staging_text:
  assumes "derive_staging_path (path_text q) jid extension token = Inr staging" and "resolved s q" and "q \<noteq> []"
  obtains name where "staging = path_text (butlast q @ [name])" and "plain_word name" and "name \<noteq> ''..''"
proof -
  let ?n = "OUTPUT_PREFIX @ jid @ ''-'' @ token @ ''.'' @ extension"
  have st: "staging = os_path_join (dirname (path_text q)) ?n"
    and tok: "safe_token jid" "safe_token extension" "safe_token token"
    using assms(1) by (auto simp: derive_staging_Inr)
  have sl: "slash \<notin> set (jid @ ''-'' @ token @ ''.'' @ extension)" using tok [THEN safe_token_plain(1)] by auto
  note n = derived_name_plain [OF sl]
  have "q = butlast q @ [last q]" using assms(3) by simp
  then have "\<forall>w\<in>set (butlast q @ [last q]). plain_word w" using resolved_plain [OF assms(2)] by simp
  then have "staging = path_text (butlast q @ [?n])"
    using sibling_text [OF _ n(2), of "butlast q" "last q"] assms(3) st by simp
  moreover have "?n \<noteq> ''..''" by (simp add: OUTPUT_PREFIX_def)
  ultimately show thesis using that n(3) by blast
qed

text \<open>C17. From the request to the files HandBrake opens.  The operation validates the requested path on
  the file system as it finds it and starts HandBrake with the validated source as input and the staging
  path as output.  When the requested path resolves without a loop, the kernel reaches the input in place,
  through no link: it is a regular file at or beneath the resolved form of a configured root, the same
  file as before the operation touched the directory.  The output is reached in place too, and is
  a file no name or descriptor referred to before.\<close>

theorem handbrake_opens_the_validated_source:
  assumes "encode_entry env jid req s = Some (cmd, staging, dst, fd, s0)"
    and "view env = fs_view levels rel s" and "is_abs (source_path req)" and "loop_free s levels (source_path req)"
  shows "\<exists>src i k. sublist [''-i'', src, ''-o'', staging] cmd \<and>
    reaches s0 src = Some (path_words src) \<and> entry_at s src = Some (EFile i) \<and> entry_at s0 src = Some (EFile i) \<and>
    (\<exists>base\<in>set (roots env). \<exists>r. realpath (view env) base = Inr r \<and> prefix (path_words r) (path_words src)) \<and>
    reaches s0 staging = Some (path_words staging) \<and> entry_at s0 staging = Some (EFile k) \<and>
    k \<notin> set (inodes_in_use s)"
proof -
  obtain src extension k where c: "validate_source_path (view env) (roots env) (source_path req) None = Inr src"
    "derive_staging_path src jid extension (token_hex env) = Inr staging"
    "cmd = build_encode_command (hb_bin env) src staging (temp_name env) (preset_name req)"
    "\<forall>p. entry_at s p \<noteq> None \<longrightarrow> entry_at s0 p = entry_at s p"
    "entry_at s0 staging = Some (EFile k)" "k \<notin> set (inodes_in_use s)"
    using encode_entry_command [OF assms(1)] .
  obtain q i where q: "src = path_text q" "q \<noteq> []" "resolved s q" "walk_path s 40 [] q = Some q" "entry_at s src = Some (EFile i)"
    using validated_location [OF assms(3,4) c(1) [unfolded assms(2)]] .
  have q0: "resolved s0 q" "walk_path s0 40 [] q = Some q"
    using resolved_grows [OF c(4) q(3,4)] walk_path_grows [OF c(4) q(4)] by auto
  obtain name where n: "staging = path_text (butlast q @ [name])" "plain_word name" "name \<noteq> ''..''"
    using staging_text [OF c(2) [unfolded q(1)] q(3,2)] .
  have bq: "butlast q @ [last q] = q" using q(2) by simp
  have w: "walk_path s0 40 [] (butlast q @ [name]) = Some (butlast q @ [name])"
    using walk_sibling [of s0 "[]" "butlast q" "last q" 40 q name k] q0 n c(5) by (simp add: bq)
  have "resolved s0 (butlast q @ [name])"
    using resolved_snoc [OF resolved_butlast [OF q0(1)] n(2,3)] c(5) n(1) by (simp add: link_target_def)
  then have st: "reaches s0 staging = Some (path_words staging)"
    using reaches_text w path_words_text by (simp add: n(1))
  have "cmd = [hb_bin env, ''--json'', ''--preset-import-file'', temp_name env, ''--preset'', preset_name req] @
      [''-i'', src, ''-o'', staging]"
    by (simp add: c(3) build_encode_command_def handbrake_cmd_def)
  then have "sublist [''-i'', src, ''-o'', staging] cmd" by (metis suffixI suffix_imp_sublist)
  moreover have "reaches s0 src = Some (path_words src)"
    using reaches_text [OF q0(1)] q0(2) path_words_text [OF q(3)] by (simp add: q(1))
  moreover have "entry_at s0 src = Some (EFile i)" using c(4) q(5) by simp
  ultimately show ?thesis using validated_beneath_root [OF c(1)] q(5) c(5,6) st by blast
qed


definition shared_fs :: fs where
  "shared_fs = \<lparr>names = [(''/media1'', EDir 2), (''/media1/new'', ELink ''Movies/Dune.mkv''), (''/media1/Movies'', EDir 4),
       (''/media1/Movies/Dune.mkv'', EFile 5), (''/tmp'', EDir 6)],
     contents = [(5, ''film'')], fds = []\<rparr>"

theorem handbrake_opens_the_validated_source_witness:
  "\<exists>cmd fd s0 k. encode_entry (Ops.demo_env\<lparr>view := fs_view 40 (\<lambda>_. Inl ValueError) shared_fs\<rparr>) ''abc123''
       (demo_req\<lparr>source_path := ''/media1/./new''\<rparr>) shared_fs =
     Some (cmd, ''/media1/Movies/.hbenc-abc123-dead.mkv'', ''/media1/Movies/.hbenc-abc123.mkv'', fd, s0) \<and>
   entry_at s0 ''/media1/Movies/.hbenc-abc123-dead.mkv'' = Some (EFile k) \<and>
   reaches s0 ''/media1/Movies/.hbenc-abc123-dead.mkv'' = Some [''media1'', ''Movies'', ''.hbenc-abc123-dead.mkv'']"
proof -
  let ?env = "Ops.demo_env\<lparr>view := fs_view 40 (\<lambda>_. Inl ValueError) shared_fs\<rparr>"
  let ?req = "demo_req\<lparr>source_path := ''/media1/./new''\<rparr>"
  have "map_option (\<lambda>(cmd, st, dst, fd, s0). (st, dst)) (encode_entry ?env ''abc123'' ?req shared_fs) =
      Some (''/media1/Movies/.hbenc-abc123-dead.mkv'', ''/media1/Movies/.hbenc-abc123.mkv'')"
    by code_simp
  then obtain cmd fd s0 where e: "encode_entry ?env ''abc123'' ?req shared_fs =
      Some (cmd, ''/media1/Movies/.hbenc-abc123-dead.mkv'', ''/media1/Movies/.hbenc-abc123.mkv'', fd, s0)" by auto
  have "loop_free shared_fs 40 ''/media1/./new''" "is_abs ''/media1/./new''"
    "path_words ''/media1/Movies/.hbenc-abc123-dead.mkv'' = [''media1'', ''Movies'', ''.hbenc-abc123-dead.mkv'']"
    by code_simp+
  then show ?thesis
    using handbrake_opens_the_validated_source [OF e, of 40 "\<lambda>_. Inl ValueError"] e by auto
qed

end
