(* ===== verification/Api.thy ===== *)
theory Api
  imports Ops Encoders Gpu JobsInvariant
begin

text \<open>
  The HTTP service (app/main.py): the routes as functions of the request and the service's state
  (settings, encoder caches, version cache, job manager), the flattening of HTTP exceptions, the
  sweep loop and the lifespan.  FastAPI's routing, body parsing and serialisation are not
  modelled; a job's function is the request it closes over.
\<close>

section \<open>Responses\<close>

datatype http_detail =
    PathRejected exc
  | SourceMissing exc
  | PresetRejected exc
  | EncoderUnavailable string string "string list"
  | InvalidVideoPreset string string string "string list"
  | QueueRefused exc
  | ServiceUnavailable "Jobs.job_error option"
  | JobNotFound

text \<open>The machine-readable code of a detail dictionary.\<close>

fun detail_code :: "http_detail \<Rightarrow> string" where
  "detail_code (PathRejected _) = ''path_not_allowed''"
| "detail_code (SourceMissing _) = ''source_not_found_on_encoder''"
| "detail_code (PresetRejected _) = ''preset_not_found''"
| "detail_code (EncoderUnavailable _ _ _) = ''encoder_unavailable''"
| "detail_code (InvalidVideoPreset _ _ _ _) = ''invalid_video_preset''"
| "detail_code (QueueRefused _) = ''queue_full''"
| "detail_code (ServiceUnavailable _) = ''service_unavailable''"
| "detail_code JobNotFound = ''job_not_found''"

text \<open>HTTPException: its detail is a dictionary (with a code), or another value the framework
  supplies.\<close>

datatype exc_detail = DetailDict http_detail | DetailOther string

record http_exception =
  status_code :: int
  detail :: exc_detail
  exc_headers :: "(string \<times> string) list"

datatype content =
    ErrorBody string "http_detail option" string   \<comment> \<open>code, the rest of the detail, reason text\<close>
  | JobAccepted string
  | JobView job_view
  | NoContent

record response =
  http_status :: int
  content :: content
  headers :: "(string \<times> string) list"

definition flatten_detail :: "http_exception \<Rightarrow> response" where
  "flatten_detail e =
     \<lparr>http_status = status_code e,
      content = (case detail e of
          DetailDict d \<Rightarrow> ErrorBody (detail_code d) (Some d) []
        | DetailOther t \<Rightarrow> ErrorBody ''error'' None t),
      headers = exc_headers e\<rparr>"

definition flatten_validation_error :: "string \<Rightarrow> response" where
  "flatten_validation_error reason =
     \<lparr>http_status = 422, content = ErrorBody ''invalid_request'' None reason, headers = []\<rparr>"

text \<open>What a route does: it returns a result, raises HTTPException, or lets another exception
  through (a 500).\<close>

datatype 'a handled = Returned 'a | HttpError http_exception | Crashed exc

definition http_error :: "int \<Rightarrow> http_detail \<Rightarrow> 'a handled" where
  "http_error code d = HttpError \<lparr>status_code = code, detail = DetailDict d, exc_headers = []\<rparr>"

section \<open>POST /jobs\<close>

record service =
  cfg :: config
  encs :: enc_state
  info_cache :: "hb_info option"
  store :: "encode_request mgr"

definition check_preset :: "encode_request \<Rightarrow> (dict \<times> string) result" where
  "check_preset req =
     bind_res (find_preset (preset_json req) (preset_name req)) (\<lambda>preset.
     bind_res (preset_encoder preset) (\<lambda>encoder.
     bind_res (preset_extension preset) (\<lambda>_. Inr (preset, encoder))))"

text \<open>The submission at the end of post_job: uuid and clock are those of the new job.\<close>

definition submit_request ::
  "string \<Rightarrow> rat \<Rightarrow> rat \<Rightarrow> encode_request \<Rightarrow> service \<Rightarrow> string handled \<times> service" where
  "submit_request uuid created now req st =
     (case submit uuid created now req (store st) of
        (Inl (QueueFull n k), m) \<Rightarrow>
          (HttpError \<lparr>status_code = 503, detail = DetailDict (QueueRefused (QueueFull n k)),
             exc_headers = [(''Retry-After'', ''60'')]\<rparr>, st\<lparr>store := m\<rparr>)
      | (Inl e, m) \<Rightarrow> (Crashed e, st\<lparr>store := m\<rparr>)
      | (Inr r, m) \<Rightarrow>
          (let jid = job_id (heap m ! r) in
           if get jid m = None
           then (http_error 503 (ServiceUnavailable (Jobs.job_error (heap m ! r))), st\<lparr>store := m\<rparr>)
           else (Returned jid, st\<lparr>store := m\<rparr>)))"

text \<open>The three subprocess calls a request may make are answered by run 0, run 1 and run 2.\<close>

definition post_job ::
  "os_view \<Rightarrow> (nat \<Rightarrow> runner) \<Rightarrow> string \<Rightarrow> rat \<Rightarrow> rat \<Rightarrow> encode_request \<Rightarrow> service \<Rightarrow> string handled \<times> service" where
  "post_job os run uuid created now req st =
     (case validate_source_path os (ALLOWED_ROOTS (cfg st)) (source_path req) None of
        Inl (PathNotAllowed r) \<Rightarrow> (http_error 403 (PathRejected (PathNotAllowed r)), st)
      | Inl (SourceNotFound p) \<Rightarrow> (http_error 404 (SourceMissing (SourceNotFound p)), st)
      | Inl e \<Rightarrow> (Crashed e, st)
      | Inr _ \<Rightarrow>
     (case check_preset req of
        Inl (PresetError r) \<Rightarrow> (http_error 400 (PresetRejected (PresetError r)), st)
      | Inl e \<Rightarrow> (Crashed e, st)
      | Inr (preset, encoder) \<Rightarrow>
     (let bin = HANDBRAKE_BIN (cfg st) in
      case is_available bin (run 0) (encs st) encoder of
        (Inl e, es) \<Rightarrow> (Crashed e, st\<lparr>encs := es\<rparr>)
      | (Inr False, es) \<Rightarrow>
          (case available_encoders bin (run 1) es of
             (Inl e, es') \<Rightarrow> (Crashed e, st\<lparr>encs := es'\<rparr>)
           | (Inr found, es') \<Rightarrow>
               (http_error 409 (EncoderUnavailable (preset_name req) encoder found), st\<lparr>encs := es'\<rparr>))
      | (Inr True, es) \<Rightarrow>
     (let video_preset = preset_video_preset preset in
      case encoder_presets bin (run 2) es encoder of
        (Inl e, es') \<Rightarrow> (Crashed e, st\<lparr>encs := es'\<rparr>)
      | (Inr valid_presets, es') \<Rightarrow>
          if video_preset \<noteq> [] \<and> valid_presets \<noteq> [] \<and> video_preset \<notin> set valid_presets
          then (http_error 400 (InvalidVideoPreset (preset_name req) video_preset encoder valid_presets),
                st\<lparr>encs := es'\<rparr>)
          else submit_request uuid created now req (st\<lparr>encs := es'\<rparr>)))))"

section \<open>The job routes\<close>

definition require_job :: "string \<Rightarrow> encode_request mgr \<Rightarrow> nat handled" where
  "require_job jid m =
     (case get jid m of None \<Rightarrow> http_error 404 JobNotFound | Some r \<Rightarrow> Returned r)"

definition get_job :: "rat \<Rightarrow> string \<Rightarrow> service \<Rightarrow> job_view handled" where
  "get_job clock jid st =
     (case require_job jid (store st) of
        Returned r \<Rightarrow> Returned (to_dict clock (heap (store st) ! r))
      | HttpError e \<Rightarrow> HttpError e
      | Crashed e \<Rightarrow> Crashed e)"

definition delete_job :: "string \<Rightarrow> service \<Rightarrow> unit handled \<times> service" where
  "delete_job jid st =
     (case delete jid (store st) of
        (True, m) \<Rightarrow> (Returned (), st\<lparr>store := m\<rparr>)
      | (False, m) \<Rightarrow> (http_error 404 JobNotFound, st\<lparr>store := m\<rparr>))"

text \<open>The response of a route whose exceptions the handlers flatten; None is the framework's 500.\<close>

definition respond :: "int \<Rightarrow> ('a \<Rightarrow> content) \<Rightarrow> 'a handled \<Rightarrow> response option" where
  "respond ok body h =
     (case h of
        Returned x \<Rightarrow> Some \<lparr>http_status = ok, content = body x, headers = []\<rparr>
      | HttpError e \<Rightarrow> Some (flatten_detail e)
      | Crashed _ \<Rightarrow> None)"

section \<open>GET /health\<close>

record health_report =
  hr_status :: string
  reasons :: "string list"
  handbrake_available :: bool
  handbrake_version :: string
  hr_encoders :: "string list"
  hr_encoder_presets :: "(string \<times> string list) list"
  gpu_name :: "string option"
  allowed_roots :: "string list"
  hr_workers :: int

text \<open>The dictionary comprehension over the available encoders.\<close>

fun collect_presets ::
  "string \<Rightarrow> runner \<Rightarrow> enc_state \<Rightarrow> string list \<Rightarrow> (string \<times> string list) list \<Rightarrow>
     (string \<times> string list) list result \<times> enc_state" where
  "collect_presets bin run es [] acc = (Inr acc, es)"
| "collect_presets bin run es (encoder # rest) acc =
     (case encoder_presets bin run es encoder of
        (Inl e, es') \<Rightarrow> (Inl e, es')
      | (Inr found, es') \<Rightarrow> collect_presets bin run es' rest (AList.update encoder found acc))"

definition health_reasons :: "bool \<Rightarrow> string list \<Rightarrow> string list \<Rightarrow> string list" where
  "health_reasons hb_ok encoders configured =
     (if hb_ok then [] else [''HandBrakeCLI is not available or not runnable on PATH'']) @
     (if encoders = [] then [''HandBrakeCLI reported no usable encoders''] else []) @
     (if configured = [] then [''ENCODER_ALLOWED_ROOTS is empty; every request will be rejected''] else [])"

definition health ::
  "(string \<Rightarrow> string option) \<Rightarrow> (string \<Rightarrow> string option) \<Rightarrow> runner \<Rightarrow> service \<Rightarrow> health_report result \<times> service" where
  "health env which run st =
     (let c = cfg st; bin = HANDBRAKE_BIN c in
      case handbrake_info bin which run (info_cache st) of (info, cache) \<Rightarrow>
      (case available_encoders bin run (encs st) of
         (Inl e, es) \<Rightarrow> (Inl e, st\<lparr>info_cache := cache, encs := es\<rparr>)
       | (Inr found, es) \<Rightarrow>
      (case collect_presets bin run es found [] of
         (Inl e, es') \<Rightarrow> (Inl e, st\<lparr>info_cache := cache, encs := es'\<rparr>)
       | (Inr presets, es') \<Rightarrow>
           (let rs = health_reasons (available info) found (ALLOWED_ROOTS c) in
            (Inr \<lparr>hr_status = (if rs \<noteq> [] then ''degraded'' else ''ok''), reasons = rs,
                  handbrake_available = available info, handbrake_version = version info,
                  hr_encoders = found, hr_encoder_presets = presets,
                  gpu_name = detect_gpu_name env run, allowed_roots = ALLOWED_ROOTS c,
                  hr_workers = WORKERS c\<rparr>,
             st\<lparr>info_cache := cache, encs := es'\<rparr>)))))"

section \<open>The sweep loop and the lifespan\<close>

text \<open>One element per round: whether the stop event fired during the wait, and the clock.\<close>

fun sweep_loop :: "(bool \<times> rat) list \<Rightarrow> 'f mgr \<Rightarrow> 'f mgr" where
  "sweep_loop [] m = m"
| "sweep_loop ((stopped, now) # rounds) m =
     (if stopped then m else sweep_loop rounds (snd (sweep now m)))"

text \<open>shutdown: its critical section, then the cancel events, the sentinels, the joins and the cleared thread
  list, one step of the store after the other.  Before each step the other threads (workers,
  requests in flight, the sweeper) may act: others k is what they do when k steps are left.\<close>

fun rounds_left :: "shutdown_pc \<Rightarrow> nat \<Rightarrow> nat" where
  "rounds_left NoShutdown n = 0"
| "rounds_left (Cancelling rs) n = length rs + n + 3"
| "rounds_left (Sentinels k) n = k + 2"
| "rounds_left Joining n = 1"

fun drive :: "nat \<Rightarrow> (nat \<Rightarrow> 'f mgr \<Rightarrow> 'f mgr) \<Rightarrow> 'f mgr \<Rightarrow> 'f mgr" where
  "drive 0 others m = m"
| "drive (Suc k) others m =
     (case shutdown_step (others k m) of None \<Rightarrow> others k m | Some m' \<Rightarrow> drive k others m')"

definition shutdown :: "(nat \<Rightarrow> 'f mgr \<Rightarrow> 'f mgr) \<Rightarrow> 'f mgr \<Rightarrow> 'f mgr" where
  "shutdown others m =
     (let m1 = shutdown_begin m in drive (rounds_left (shut m1) (length (threads m1))) others m1)"

text \<open>The lifespan's own state: the manager, the daemon threads started, the sweeper's stop event.  Serving is
  a parameter: the generator is resumed at its yield, normally or with an exception thrown
  into it.  A try statement with a finally clause: the clause runs on both exits, and what it
  raises replaces a pending exception.\<close>

datatype daemon = EncoderProbe | Sweeper

record 'f app =
  manager :: "'f mgr"
  daemons :: "daemon list"
  stop_event :: bool

definition try_finally :: "('s \<Rightarrow> 'a result \<times> 's) \<Rightarrow> ('s \<Rightarrow> unit result \<times> 's) \<Rightarrow> 's \<Rightarrow> 'a result \<times> 's" where
  "try_finally body clause s =
     (case body s of
        (res, s1) \<Rightarrow>
          (case clause s1 of
             (Inl e, s2) \<Rightarrow> (Inl e, s2)
           | (Inr _, s2) \<Rightarrow> (res, s2)))"

definition lifespan_start :: "'f app \<Rightarrow> 'f app" where
  "lifespan_start a =
     a\<lparr>manager := start_manager (manager a), daemons := daemons a @ [EncoderProbe, Sweeper], stop_event := False\<rparr>"

definition lifespan_end :: "(nat \<Rightarrow> 'f mgr \<Rightarrow> 'f mgr) \<Rightarrow> 'f app \<Rightarrow> unit result \<times> 'f app" where
  "lifespan_end others a = (let b = a\<lparr>stop_event := True\<rparr> in (Inr (), b\<lparr>manager := shutdown others (manager b)\<rparr>))"

definition lifespan ::
  "(nat \<Rightarrow> 'f mgr \<Rightarrow> 'f mgr) \<Rightarrow> ('f app \<Rightarrow> unit result \<times> 'f app) \<Rightarrow> 'f app \<Rightarrow> unit result \<times> 'f app" where
  "lifespan others serve a = try_finally serve (lifespan_end others) (lifespan_start a)"

section \<open>The store as the routes see it\<close>

text \<open>The contract between the routes and the job manager: what a lookup returns after a submission
  and after a removal.  A submission answers with the new job when it was stored.\<close>

locale job_store =
  fixes lookup :: "'m \<Rightarrow> string \<Rightarrow> nat option"
    and add :: "string \<Rightarrow> 'm \<Rightarrow> nat option \<times> 'm"
    and remove :: "string \<Rightarrow> 'm \<Rightarrow> bool \<times> 'm"
  assumes add_stored: "add k m = (Some r, m') \<Longrightarrow> lookup m' = (lookup m)(k \<mapsto> r)"
    and add_refused: "add k m = (None, m') \<Longrightarrow> lookup m' = lookup m"
    and remove_law: "remove k m = (b, m') \<Longrightarrow> (b \<longleftrightarrow> lookup m k \<noteq> None) \<and> lookup m' = (lookup m)(k := None)"
begin

text \<open>A removed id is unknown, and removing it again is refused.\<close>

lemma remove_twice:
  assumes "remove k m = (b, m1)" and "remove k m1 = (b', m2)"
  shows "lookup m1 k = None \<and> \<not> b' \<and> lookup m2 = lookup m1"
  using remove_law [OF assms(1)] remove_law [OF assms(2)] by (auto simp: fun_eq_iff)

text \<open>Storing and removing a new id gives back the old store, seen through lookup.\<close>

lemma add_remove:
  assumes "lookup m k = None" and "add k m = (Some r, m1)" and "remove k m1 = (b, m2)"
  shows "b \<and> lookup m2 = lookup m"
  using add_stored [OF assms(2)] remove_law [OF assms(3)] assms(1) by (auto simp: fun_eq_iff)

text \<open>Neither operation touches another id.\<close>

lemma add_other: "add k m = (x, m') \<Longrightarrow> j \<noteq> k \<Longrightarrow> lookup m' j = lookup m j"
  using add_stored add_refused by (cases x) fastforce+

lemma remove_other: "remove k m = (b, m') \<Longrightarrow> j \<noteq> k \<Longrightarrow> lookup m' j = lookup m j"
  using remove_law by fastforce

end

definition stored_submit :: "'f \<Rightarrow> rat \<Rightarrow> rat \<Rightarrow> string \<Rightarrow> 'f mgr \<Rightarrow> nat option \<times> 'f mgr" where
  "stored_submit fn created now k m =
     (case submit k created now fn m of
        (Inl e, m') \<Rightarrow> (None, m')
      | (Inr r, m') \<Rightarrow> (if is_running m then Some r else None, m'))"

lemma get_delete:
  "delete k m = (b, m') \<Longrightarrow> (b \<longleftrightarrow> get k m \<noteq> None) \<and> (\<lambda>j. get j m') = (\<lambda>j. get j m)(k := None)"
  by (cases "map_of (jobs m) k") (auto simp: delete_def get_def update_job_def fun_eq_iff)

lemma submit_cases:
  assumes "submit k created now fn m = (res, m')"
  shows "(\<not> is_running m \<and> res = Inr (length (heap m)) \<and> (\<lambda>j. get j m') = (\<lambda>j. get j m) \<and>
      jobs m' = jobs m \<and> queue m' = queue m \<and> pending m' = pending m \<and>
      job_id (heap m' ! length (heap m)) = k) \<or>
    (is_running m \<and> res = Inl (QueueFull (pending m) (max_queue m)) \<and> m' = m) \<or>
    (is_running m \<and> res = Inr (length (heap m)) \<and> (\<lambda>j. get j m') = (\<lambda>j. get j m)(k \<mapsto> length (heap m)) \<and>
      heap m' = heap m @ [new_job k created] \<and> queue m' = queue m @ [Some (length (heap m), fn)] \<and>
      job_id (heap m' ! length (heap m)) = k)"
  using assms
  by (auto simp: submit_def submit_locked_def Let_def put_def get_def fun_eq_iff new_job_def nth_append
      split: if_splits)

lemma stored_submit_Some:
  "stored_submit fn created now k m = (Some r, m') \<longleftrightarrow>
     is_running m \<and> submit k created now fn m = (Inr r, m')"
  by (cases "submit k created now fn m"; cases "fst (submit k created now fn m)")
    (auto simp: stored_submit_def)

lemma stored_submit_None:
  "stored_submit fn created now k m = (None, m') \<Longrightarrow>
     \<exists>res. submit k created now fn m = (res, m') \<and> (is_running m \<longrightarrow> (\<exists>e. res = Inl e))"
  by (cases "submit k created now fn m"; cases "fst (submit k created now fn m)")
    (auto simp: stored_submit_def split: if_splits)

interpretation api_store: job_store "\<lambda>m k. get k m" "stored_submit fn created now" "delete :: string \<Rightarrow> 'f mgr \<Rightarrow> _"
  for fn :: 'f and created now
proof
  fix k r and m m' :: "'f mgr"
  assume "stored_submit fn created now k m = (Some r, m')"
  then show "(\<lambda>j. get j m') = (\<lambda>j. get j m)(k \<mapsto> r)"
    unfolding stored_submit_Some using submit_cases [of k created now fn m "Inr r" m'] by auto
next
  fix k and m m' :: "'f mgr"
  assume "stored_submit fn created now k m = (None, m')"
  from stored_submit_None [OF this] obtain res where
    "submit k created now fn m = (res, m')" "is_running m \<longrightarrow> (\<exists>e. res = Inl e)" by blast
  then show "(\<lambda>j. get j m') = (\<lambda>j. get j m)" using submit_cases [of k created now fn m res m'] by auto
qed (rule get_delete)

section \<open>Properties of the routes\<close>

lemma within_some_root_Inl: "within_some_root os p rs = Inl e \<Longrightarrow> \<exists>q. realpath os q = Inl e"
  by (induction rs) (auto simp: bind_res_Inl split: if_splits)

lemma validate_Inl:
  "validate_source_path os conf p None = Inl e \<Longrightarrow>
     (\<exists>r. e = PathNotAllowed r) \<or> (\<exists>q. e = SourceNotFound q) \<or> (\<exists>q. realpath os q = Inl e)"
  by (auto simp: validate_source_path_def Let_def bind_res_Inl dest: within_some_root_Inl
      split: if_splits option.splits sum.splits exc.splits)

lemma check_preset_Inl: "check_preset req = Inl e \<Longrightarrow> \<exists>r. e = PresetError r"
  by (auto simp: check_preset_def bind_res_Inl find_preset_def preset_encoder_def preset_extension_def Let_def
      split: option.splits json.splits if_splits)

lemma available_encoders_Inl: "available_encoders bin run s = (Inl e, s') \<Longrightarrow> e = ValueError"
  by (auto simp: available_encoders_def probe_encoders_def Let_def split: option.splits run_result.splits)

lemma is_available_Inl: "is_available bin run s enc = (Inl e, s') \<Longrightarrow> e = ValueError"
  by (auto simp: is_available_def dest: available_encoders_Inl split: prod.splits sum.splits)

lemma encoder_presets_Inl: "encoder_presets bin run s enc = (Inl e, s') \<Longrightarrow> e = ValueError"
  by (auto simp: encoder_presets_def probe_presets_def Let_def split: option.splits run_result.splits)

text \<open>The part of the manager a rejected request must leave alone.\<close>

definition same_work :: "'f mgr \<Rightarrow> 'f mgr \<Rightarrow> bool" where
  "same_work m m' \<longleftrightarrow> jobs m' = jobs m \<and> queue m' = queue m \<and> pending m' = pending m \<and>
     workers m' = workers m \<and> is_running m' = is_running m"

lemma same_work_refl [simp]: "same_work m m"
  by (simp add: same_work_def)

lemma submit_request_cases:
  assumes "submit_request uuid created now req st = (h, st')" and "get uuid (store st) = None"
  shows "(h = Returned uuid \<and> is_running (store st) \<and>
      get uuid (store st') = Some (length (heap (store st))) \<and>
      heap (store st') = heap (store st) @ [new_job uuid created] \<and>
      queue (store st') = queue (store st) @ [Some (length (heap (store st)), req)]) \<or>
    (\<exists>e. h = HttpError e \<and> status_code e = 503 \<and> same_work (store st) (store st') \<and>
      (\<not> is_running (store st) \<or> 0 < max_queue (store st) \<and> max_queue (store st) \<le> pending (store st)))"
  using assms
  by (auto simp: submit_request_def submit_def submit_locked_def Let_def put_def get_def new_job_def
      http_error_def same_work_def nth_append split: if_splits)

lemma post_job_cases:
  assumes "post_job os run uuid created now req st = (h, st')" and "get uuid (store st) = None"
  shows "(h = Returned uuid \<and> (\<exists>src. validate_source_path os (ALLOWED_ROOTS (cfg st)) (source_path req) None = Inr src) \<and>
      (\<exists>p encoder es valid. check_preset req = Inr (p, encoder) \<and>
         is_available (HANDBRAKE_BIN (cfg st)) (run 0) (encs st) encoder = (Inr True, es) \<and>
         fst (encoder_presets (HANDBRAKE_BIN (cfg st)) (run 2) es encoder) = Inr valid \<and>
         (preset_video_preset p = [] \<or> valid = [] \<or> preset_video_preset p \<in> set valid)) \<and> is_running (store st) \<and>
      get uuid (store st') = Some (length (heap (store st))) \<and>
      heap (store st') = heap (store st) @ [new_job uuid created] \<and>
      queue (store st') = queue (store st) @ [Some (length (heap (store st)), req)]) \<or>
    (\<exists>e. h = HttpError e \<and> status_code e \<in> {400, 403, 404, 409, 503} \<and> same_work (store st) (store st')) \<or>
    (\<exists>e. h = Crashed e \<and> (e = ValueError \<or> (\<exists>q. realpath os q = Inl e)) \<and> store st' = store st)"
proof (cases "validate_source_path os (ALLOWED_ROOTS (cfg st)) (source_path req) None")
  case (Inl e)
  then show ?thesis using assms(1) validate_Inl [OF Inl]
    by (auto simp: post_job_def http_error_def split: exc.splits)
next
  case v: (Inr src)
  show ?thesis
  proof (cases "check_preset req")
    case (Inl e)
    then show ?thesis using assms(1) v check_preset_Inl [OF Inl]
      by (auto simp: post_job_def http_error_def)
  next
    case (Inr q)
    obtain p encoder where c: "check_preset req = Inr (p, encoder)" using Inr by (cases q) simp
    obtain av es where a: "is_available (HANDBRAKE_BIN (cfg st)) (run 0) (encs st) encoder = (av, es)" by force
    show ?thesis
    proof (cases av)
      case (Inl e)
      then show ?thesis using assms(1) v c a is_available_Inl
        by (auto simp: post_job_def Let_def)
    next
      case ok: (Inr b)
      show ?thesis
      proof (cases b)
        case False
        obtain r es' where r: "available_encoders (HANDBRAKE_BIN (cfg st)) (run 1) es = (r, es')" by force
        then show ?thesis using assms(1) v c a ok False available_encoders_Inl
          by (cases r) (auto simp: post_job_def Let_def http_error_def)
      next
        case True
        obtain r es' where r: "encoder_presets (HANDBRAKE_BIN (cfg st)) (run 2) es encoder = (r, es')" by force
        show ?thesis
        proof (cases r)
          case (Inl e)
          then show ?thesis using assms(1) v c a ok True r encoder_presets_Inl
            by (auto simp: post_job_def Let_def)
        next
          case (Inr valid)
          have split: "(h, st') = (http_error 400 (InvalidVideoPreset (preset_name req) (preset_video_preset p) encoder valid),
                st\<lparr>encs := es'\<rparr>) \<or>
              (preset_video_preset p = [] \<or> valid = [] \<or> preset_video_preset p \<in> set valid) \<and>
              submit_request uuid created now req (st\<lparr>encs := es'\<rparr>) = (h, st')"
            using assms(1) v c a ok True r Inr by (auto simp: post_job_def Let_def split: if_splits)
          then show ?thesis
          proof
            assume s: "(preset_video_preset p = [] \<or> valid = [] \<or> preset_video_preset p \<in> set valid) \<and>
              submit_request uuid created now req (st\<lparr>encs := es'\<rparr>) = (h, st')"
            have "\<exists>p encoder es valid. check_preset req = Inr (p, encoder) \<and>
                is_available (HANDBRAKE_BIN (cfg st)) (run 0) (encs st) encoder = (Inr True, es) \<and>
                fst (encoder_presets (HANDBRAKE_BIN (cfg st)) (run 2) es encoder) = Inr valid \<and>
                (preset_video_preset p = [] \<or> valid = [] \<or> preset_video_preset p \<in> set valid)"
              using s c a ok True r Inr by (intro exI [of _ p] exI [of _ encoder] exI [of _ es] exI [of _ valid]) simp
            then show ?thesis using submit_request_cases [OF conjunct2 [OF s]] assms(2) v by auto
          qed (auto simp: http_error_def)
        qed
      qed
    qed
  qed
qed

lemma submit_request_workers:
  "submit_request uuid created now req st = (h, st') \<Longrightarrow> workers (store st') = workers (store st)"
  by (auto simp: submit_request_def submit_def submit_locked_def Let_def put_def http_error_def split: if_splits)

lemma post_job_workers:
  "post_job os run uuid created now req st = (Returned jid, st') \<Longrightarrow> workers (store st') = workers (store st)"
  by (auto simp: post_job_def http_error_def Let_def
      split: sum.splits exc.splits prod.splits bool.splits if_splits dest!: submit_request_workers)

text \<open>C13. What a submission request does to the store: it answers with a job id only if the path is
  allowed, the preset is complete, its encoder is available, its speed preset (when it names one, and the
  encoder's vocabulary is known) is in that vocabulary, and the manager is running, and then exactly one fresh queued job,
  carrying this request, is stored under the answered id and put at the end of the queue; every
  rejection (400, 403, 404, 409, 503) and every other failure leaves the stored jobs, the queue,
  the backlog counter and the workers as they were.\<close>

theorem post_job_store_effect:
  assumes "post_job os run uuid created now req st = (h, st')" and "get uuid (store st) = None"
  shows "case h of
      Returned jid \<Rightarrow> jid = uuid \<and> is_running (store st) \<and>
        (\<exists>src. validate_source_path os (ALLOWED_ROOTS (cfg st)) (source_path req) None = Inr src) \<and>
        (\<exists>p encoder es valid. check_preset req = Inr (p, encoder) \<and>
           is_available (HANDBRAKE_BIN (cfg st)) (run 0) (encs st) encoder = (Inr True, es) \<and>
           fst (encoder_presets (HANDBRAKE_BIN (cfg st)) (run 2) es encoder) = Inr valid \<and>
           (preset_video_preset p = [] \<or> valid = [] \<or> preset_video_preset p \<in> set valid)) \<and>
        get uuid (store st') = Some (length (heap (store st))) \<and>
        heap (store st') = heap (store st) @ [new_job uuid created] \<and>
        queue (store st') = queue (store st) @ [Some (length (heap (store st)), req)]
    | HttpError e \<Rightarrow> status_code e \<in> {400, 403, 404, 409, 503} \<and> same_work (store st) (store st')
    | Crashed e \<Rightarrow> (e = ValueError \<or> (\<exists>q. realpath os q = Inl e)) \<and> store st' = store st"
  using post_job_cases [OF assms] by auto

text \<open>C14. What is accepted can be attempted: if a request was answered with a job id, then the job
  function, run with the same settings and the same view of the file system and with a safe id
  and token, passes all of its own checks (it reaches the claim of the staging file), except
  that the output path may resolve to the source, or its resolution may raise.  So a bad path or preset is
  always refused up front.\<close>

theorem accepted_job_passes_checks:
  assumes "post_job os run uuid created now req st = (Returned jid, st')" and "get uuid (store st) = None"
    and "view env = os" and "roots env = ALLOWED_ROOTS (cfg st)"
    and "safe_token jid" and "safe_token (token_hex env)"
  shows "(\<exists>src encoder dst staging. prepare env jid req = Inr (src, encoder, dst, staging)) \<or>
    prepare env jid req = Inl (PathNotAllowed OutputCollidesWithSource) \<or>
    (\<exists>dst e. realpath os dst = Inl e \<and> prepare env jid req = Inl e)"
proof -
  obtain src p encoder where v: "validate_source_path os (ALLOWED_ROOTS (cfg st)) (source_path req) None = Inr src"
    and c: "check_preset req = Inr (p, encoder)"
    using post_job_cases [OF assms(1,2)] by auto
  from c obtain ext where f: "find_preset (preset_json req) (preset_name req) = Inr p"
    "preset_encoder p = Inr encoder" "preset_extension p = Inr ext"
    by (auto simp: check_preset_def bind_res_Inr)
  have e: "safe_token ext" using preset_extension_safe [OF f(3)] by simp
  obtain dst where d: "derive_output_path src jid ext = Inr dst"
    using assms(5) e by (simp add: derive_output_path_def)
  obtain staging where "derive_staging_path src jid ext (token_hex env) = Inr staging"
    using assms(5,6) e by (simp add: derive_staging_path_def)
  then show ?thesis using v f d assms(3,4)
    by (cases "realpath os dst") (auto simp: prepare_def)
qed

text \<open>Deleting is final: DELETE succeeds exactly for a stored id, afterwards GET and a second
  DELETE of that id answer 404, every other job is still found, and the deleted job's cancel
  event is set.\<close>

theorem delete_job_final:
  assumes "delete_job jid st = (h, st1)"
  shows "(h = Returned () \<longleftrightarrow> get jid (store st) \<noteq> None) \<and>
    get_job clock jid st1 = http_error 404 JobNotFound \<and>
    fst (delete_job jid st1) = http_error 404 JobNotFound \<and>
    (\<forall>k. k = jid \<or> get k (store st1) = get k (store st)) \<and>
    (\<forall>r. get jid (store st) = Some r \<and> r < length (heap (store st)) \<longrightarrow> cancelled (heap (store st1) ! r))"
proof -
  obtain b m1 where d: "delete jid (store st) = (b, m1)" by force
  have del: "delete_job jid st = (if b then Returned () else http_error 404 JobNotFound, st\<lparr>store := m1\<rparr>)"
    using d by (cases b) (simp_all add: delete_job_def)
  obtain b' m2 where d': "delete jid m1 = (b', m2)" by force
  have tw: "get jid m1 = None" "\<not> b'" using api_store.remove_twice [OF d d'] by simp_all
  have st1: "store st1 = m1" "h = (if b then Returned () else http_error 404 JobNotFound)"
    using assms del by auto
  have b: "b \<longleftrightarrow> get jid (store st) \<noteq> None" using get_delete [OF d] by simp
  have 1: "h = Returned () \<longleftrightarrow> get jid (store st) \<noteq> None"
    using b st1(2) by (simp add: http_error_def)
  have 2: "get_job clock jid st1 = http_error 404 JobNotFound"
    using tw(1) st1(1) by (simp add: get_job_def require_job_def http_error_def)
  have 3: "fst (delete_job jid st1) = http_error 404 JobNotFound"
    using d' tw(2) st1(1) by (simp add: delete_job_def)
  have 4: "k = jid \<or> get k (store st1) = get k (store st)" for k
    using api_store.remove_other [OF d, of k] st1(1) by blast
  have 5: "cancelled (heap (store st1) ! r)" if "get jid (store st) = Some r" "r < length (heap (store st))" for r
  proof -
    have "m1 = update_job r (\<lambda>j. j\<lparr>cancelled := True\<rparr>) (store st\<lparr>jobs := AList.delete jid (jobs (store st))\<rparr>)"
      using d that(1) by (simp add: delete_def get_def)
    then show ?thesis using that(2) by (simp add: st1(1))
  qed
  show ?thesis using 1 2 3 4 5 by blast
qed

text \<open>Health is truthful: when the report is produced, its status is ok exactly when HandBrakeCLI
  runs, at least one encoder was found and at least one root is configured; otherwise it is
  degraded and each missing condition is named; and the encoders and presets of the report are
  those that post_job checks against (the same caches).\<close>

theorem health_truthful:
  assumes "health env which run st = (Inr rep, st')"
  shows "hr_status rep = (if handbrake_available rep \<and> hr_encoders rep \<noteq> [] \<and> allowed_roots rep \<noteq> []
      then ''ok'' else ''degraded'') \<and>
    int (length (reasons rep)) = (if handbrake_available rep then 0 else 1) +
      (if hr_encoders rep = [] then 1 else 0) + (if allowed_roots rep = [] then 1 else 0) \<and>
    allowed_roots rep = ALLOWED_ROOTS (cfg st) \<and> cfg st' = cfg st \<and> store st' = store st \<and>
    fst (available_encoders (HANDBRAKE_BIN (cfg st)) run (encs st)) = Inr (hr_encoders rep)"
proof -
  obtain info cache where i: "handbrake_info (HANDBRAKE_BIN (cfg st)) which run (info_cache st) = (info, cache)"
    by force
  obtain r es where a: "available_encoders (HANDBRAKE_BIN (cfg st)) run (encs st) = (r, es)" by force
  then obtain found where r: "r = Inr found" using assms i by (cases r) (simp_all add: health_def Let_def)
  obtain q es' where c: "collect_presets (HANDBRAKE_BIN (cfg st)) run es found [] = (q, es')" by force
  then obtain presets where q: "q = Inr presets" using assms i a r by (cases q) (simp_all add: health_def Let_def)
  let ?rs = "health_reasons (available info) found (ALLOWED_ROOTS (cfg st))"
  have h: "health env which run st = (Inr \<lparr>hr_status = (if ?rs \<noteq> [] then ''degraded'' else ''ok''), reasons = ?rs,
      handbrake_available = available info, handbrake_version = version info,
      hr_encoders = found, hr_encoder_presets = presets, gpu_name = detect_gpu_name env run,
      allowed_roots = ALLOWED_ROOTS (cfg st), hr_workers = WORKERS (cfg st)\<rparr>,
      st\<lparr>info_cache := cache, encs := es'\<rparr>)"
    unfolding health_def Let_def by (simp only: i a r c q prod.case sum.case)
  have rep: "hr_status rep = (if ?rs \<noteq> [] then ''degraded'' else ''ok'')" "reasons rep = ?rs"
    "handbrake_available rep = available info" "hr_encoders rep = found"
    "allowed_roots rep = ALLOWED_ROOTS (cfg st)" "st' = st\<lparr>info_cache := cache, encs := es'\<rparr>"
    using assms unfolding h by auto
  show ?thesis unfolding rep a r by (simp add: health_reasons_def)
qed

text \<open>What the other threads may do meanwhile: any run of the store, short of starting the manager or
  shutting it down.\<close>

definition interferes :: "(nat \<Rightarrow> 'f mgr \<Rightarrow> 'f mgr) \<Rightarrow> bool" where
  "interferes others \<longleftrightarrow> (\<forall>k m. step\<^sup>*\<^sup>* m (others k m) \<and> shut (others k m) = shut m \<and>
     threads (others k m) = threads m \<and> is_running (others k m) = is_running m)"

lemma shutdown_step_frame:
  assumes "shutdown_step m = Some m'"
  shows "is_running m' = is_running m \<and>
    rounds_left (shut m) (length (threads m)) = Suc (rounds_left (shut m') (length (threads m')))"
  using assms
  by (auto simp: shutdown_step_def update_job_def put_def split: shutdown_pc.splits list.splits nat.splits)

lemma shutdown_step_ends: "shutdown_step m = None \<longleftrightarrow> shut m = NoShutdown"
  by (simp add: shutdown_step_def split: shutdown_pc.split list.split nat.split)

lemma shutdown_step_last: "shutdown_step m = Some m' \<Longrightarrow> shut m' = NoShutdown \<Longrightarrow> threads m' = []"
  by (auto simp: shutdown_step_def update_job_def put_def split: shutdown_pc.splits list.splits nat.splits)

text \<open>The driven shutdown is a run of the store, and its rounds are enough to complete it.\<close>

lemma drive_completes:
  assumes "interferes others" and "rounds_left (shut m) (length (threads m)) = n" and "0 < n"
  shows "step\<^sup>*\<^sup>* m (drive n others m) \<and> shut (drive n others m) = NoShutdown \<and> threads (drive n others m) = [] \<and>
    is_running (drive n others m) = is_running m"
  using assms(2,3)
proof (induction n arbitrary: m)
  case (Suc k)
  let ?m = "others k m"
  have o: "step\<^sup>*\<^sup>* m ?m" "shut ?m = shut m" "threads ?m = threads m" "is_running ?m = is_running m"
    using assms(1) by (auto simp: interferes_def)
  have "shut ?m \<noteq> NoShutdown" using Suc.prems(1) o(2) by auto
  then obtain m' where m': "shutdown_step ?m = Some m'" using shutdown_step_ends [of ?m] by auto
  note f = shutdown_step_frame [OF m']
  have k: "rounds_left (shut m') (length (threads m')) = k" using f Suc.prems(1) o(2,3) by simp
  have run: "step\<^sup>*\<^sup>* m m'" using o(1) step_shutting [OF m'] by (rule rtranclp.rtrancl_into_rtrancl)
  show ?case
  proof (cases "k = 0")
    case True
    then have "shut m' = NoShutdown" using k by (cases "shut m'") simp_all
    then show ?thesis using m' True run f o(4) shutdown_step_last [OF m'] by simp
  next
    case False
    then show ?thesis using Suc.IH [OF k] m' run f o(4) by (auto intro: rtranclp_trans)
  qed
qed simp

lemma shutdown_completes:
  assumes "interferes others" and "shut m = NoShutdown"
  shows "step\<^sup>*\<^sup>* m (shutdown others m) \<and> shut (shutdown others m) = NoShutdown \<and> threads (shutdown others m) = [] \<and>
    \<not> is_running (shutdown others m)"
proof -
  have "0 < rounds_left (shut (shutdown_begin m)) (length (threads (shutdown_begin m)))"
    by (simp add: shutdown_begin_def)
  from drive_completes [OF assms(1) refl this] show ?thesis
    using step_shutdown [OF assms(2)]
    by (auto simp: shutdown_def Let_def shutdown_begin_def intro: converse_rtranclp_into_rtranclp)
qed

text \<open>C33. The lifespan leaves no running encode unasked, however serving ends: whether the generator is
  resumed normally or an exception is thrown into it at the yield, the finally clause sets the
  sweeper's stop event and completes the shutdown (whatever the other threads do meanwhile), after
  which the manager is not running, has no threads, and every unfinished job ever accepted has its
  cancel event set; a thrown exception goes on unchanged.\<close>

theorem lifespan_cancels_all:
  assumes "initial_manager (manager a)" and "serve (lifespan_start a) = (res, b)"
    and "step\<^sup>*\<^sup>* (start_manager (manager a)) (manager b)" and "shut (manager b) = NoShutdown"
    and "interferes others" and "lifespan others serve a = (out, c)"
  shows "out = res \<and> stop_event c \<and> \<not> is_running (manager c) \<and> shut (manager c) = NoShutdown \<and>
    threads (manager c) = [] \<and>
    (\<forall>r<length (heap (manager c)). terminal (status (heap (manager c) ! r)) \<or> cancelled (heap (manager c) ! r))"
proof -
  let ?s = "manager b"
  have c: "out = res" "stop_event c" "manager c = shutdown others ?s"
    using assms(2,6) by (auto simp: lifespan_def try_finally_def lifespan_end_def Let_def)
  have "mgr_inv (manager a)" using assms(1) by (auto simp: initial_manager_def intro: mgr_inv_init)
  then have "mgr_inv (start_manager (manager a))" by (rule inv_start)
  then have inv: "mgr_inv ?s" using mgr_sys.inv_run assms(3) by blast
  note s = shutdown_completes [OF assms(5,4)]
  then have "mgr_inv (shutdown others ?s)" using mgr_sys.inv_run inv by blast
  from inv_part(7) [OF this] show ?thesis using s by (auto simp: c reachable_or_cancelled_def)
qed

section \<open>Concrete requests\<close>

definition demo_config :: config where
  "demo_config = \<lparr>ALLOWED_ROOTS = [''/media1''], HANDBRAKE_BIN = ''HandBrakeCLI'', WORKERS = 1,
     JOB_TTL_SECONDS = 3600, PORT = 3335, MAX_QUEUE = 2, MAX_BODY_BYTES = 1000000\<rparr>"

definition demo_service :: service where
  "demo_service = \<lparr>cfg = demo_config,
     encs = \<lparr>enc_cache = Some [''x264''], preset_cache = [(''x264'', [''fast''])], generation = 0\<rparr>,
     info_cache = Some \<lparr>available = True, version = ''1.10.2'', hb_path = ''/usr/bin/HandBrakeCLI''\<rparr>,
     store = start_manager (init_manager 1 3600 2)\<rparr>"

definition demo_post :: "string handled \<times> service" where
  "demo_post = post_job demo_os (\<lambda>_ _. RunOSError) ''abc123'' 0 0 demo_req demo_service"

lemma demo_post_result: "fst demo_post = Returned ''abc123''"
  by code_simp

lemma demo_post_pair: "post_job demo_os (\<lambda>_ _. RunOSError) ''abc123'' 0 0 demo_req demo_service =
    (Returned ''abc123'', snd demo_post)"
  using demo_post_result by (simp add: demo_post_def prod_eq_iff)

lemma demo_store_empty: "get k (store demo_service) = None"
  by (simp add: demo_service_def start_manager_def init_manager_def get_def)

theorem post_job_store_effect_witness:
  "\<exists>r. get ''abc123'' (store (snd demo_post)) = Some r \<and>
     queue (store (snd demo_post)) = queue (store demo_service) @ [Some (r, demo_req)]"
  using post_job_store_effect [OF demo_post_pair demo_store_empty] by simp

theorem accepted_job_passes_checks_witness:
  "(\<exists>src encoder dst staging. prepare demo_env ''abc123'' demo_req = Inr (src, encoder, dst, staging)) \<or>
     prepare demo_env ''abc123'' demo_req = Inl (PathNotAllowed OutputCollidesWithSource)"
proof -
  have "safe_token ''abc123''" "safe_token (token_hex demo_env)" by code_simp+
  moreover have "view demo_env = demo_os" "roots demo_env = ALLOWED_ROOTS (cfg demo_service)"
    by (simp_all add: demo_env_def demo_service_def demo_config_def)
  moreover have "realpath demo_os p \<noteq> Inl e" for p e by (simp add: demo_os_def)
  ultimately show ?thesis
    using accepted_job_passes_checks [OF demo_post_pair demo_store_empty] by blast
qed

theorem delete_job_final_witness:
  "get_job 0 ''abc123'' (snd (delete_job ''abc123'' (snd demo_post))) = http_error 404 JobNotFound"
  using delete_job_final [OF surjective_pairing] by blast

theorem health_truthful_witness:
  "hr_status (projr (fst (health (\<lambda>_. None) (\<lambda>_. None) (\<lambda>_. RunOSError) demo_service))) = ''ok''"
proof -
  obtain rep where r: "health (\<lambda>_. None) (\<lambda>_. None) (\<lambda>_. RunOSError) demo_service =
      (Inr rep, snd (health (\<lambda>_. None) (\<lambda>_. None) (\<lambda>_. RunOSError) demo_service))"
    "handbrake_available rep" "hr_encoders rep = [''x264'']" "allowed_roots rep = [''/media1'']"
    by (auto simp: health_def demo_service_def demo_config_def handbrake_info_def available_encoders_def
        encoder_presets_def Let_def)
  then show ?thesis using health_truthful [OF r(1)] by (metis fst_conv list.distinct(1) sum.sel(2))
qed

theorem lifespan_cancels_all_witness:
  "\<exists>c. lifespan (\<lambda>k m. snd (sweep 5 m)) (\<lambda>a. (Inl (OtherException ''boom''), a\<lparr>manager := snd (submit ''a'' 1 1 (7 :: nat) (manager a))\<rparr>))
       \<lparr>manager = init_manager 1 3600 2, daemons = [], stop_event = False\<rparr> = (Inl (OtherException ''boom''), c) \<and>
     stop_event c \<and> \<not> is_running (manager c)"
proof -
  let ?m = "init_manager 1 3600 2 :: nat mgr"
  let ?a = "\<lparr>manager = ?m, daemons = [], stop_event = False\<rparr>"
  let ?serve = "\<lambda>a. (Inl (OtherException ''boom''), a\<lparr>manager := snd (submit ''a'' 1 1 (7 :: nat) (manager a))\<rparr>)"
  let ?others = "\<lambda>(k :: nat) m. snd (sweep 5 (m :: nat mgr))"
  obtain out c where l: "lifespan ?others ?serve ?a = (out, c)" by force
  have "initial_manager (manager ?a)" by (auto simp: initial_manager_def)
  moreover have "submit ''a'' 1 1 7 (start_manager ?m) = (Inr 0, snd (submit ''a'' 1 1 7 (start_manager ?m)))"
    by (simp add: submit_def submit_locked_def start_manager_def init_manager_def Let_def)
  then have "step\<^sup>*\<^sup>* (start_manager ?m) (snd (submit ''a'' 1 1 7 (start_manager ?m)))"
    by (intro submit_is_steps [of "''a''" "start_manager ?m" 1 1 7 0])
      (simp_all add: start_manager_def init_manager_def)
  then have "step\<^sup>*\<^sup>* (start_manager (manager ?a)) (manager (snd (?serve (lifespan_start ?a))))"
    by (simp add: lifespan_start_def)
  moreover have "shut (manager (snd (?serve (lifespan_start ?a)))) = NoShutdown"
    by (simp add: lifespan_start_def submit_def submit_locked_def start_manager_def init_manager_def Let_def put_def)
  moreover have "interferes ?others"
    using step_sweep by (auto simp: interferes_def sweep_def Let_def)
  ultimately show ?thesis using lifespan_cancels_all [of ?a ?serve, OF _ _ _ _ _ l] l by force
qed

end
