(* ===== verification/E2E.thy ===== *)
theory E2E
  imports Progress Paths
begin

text \<open>
  The end-to-end check (scripts/e2e_encode.py): the HTTP client, the wait for the service, the
  health check, the submission, the polling loop and the final assertions.  The service, the media
  directory and the clock are the world it runs in: what each request of a loop is answered, and
  what the monotonic clock reads at each round, are functions of the round.  Both loops take fuel;
  not returning within it is None.
\<close>

section \<open>Python values the script compares\<close>

text \<open>Equality of decoded JSON values: numbers and booleans by value, lists elementwise,
  dictionaries by key.\<close>

lemma size_dict_value: "p \<in> set d \<Longrightarrow> size (snd p) \<le> size_list (size_prod (\<lambda>_. 0) size) d"
  by (induction d) auto

function py_eq :: "json \<Rightarrow> json \<Rightarrow> bool" where
  "py_eq a b = (case (as_number a, as_number b) of
     (Some x, Some y) \<Rightarrow> feq x y
   | (None, None) \<Rightarrow>
       (case (a, b) of
          (JNull, JNull) \<Rightarrow> True
        | (JStr s, JStr t) \<Rightarrow> s = t
        | (JList xs, JList ys) \<Rightarrow> length xs = length ys \<and> (\<forall>p\<in>set (zip xs ys). py_eq (fst p) (snd p))
        | (JDict d, JDict e) \<Rightarrow> length d = length e \<and>
            (\<forall>p\<in>set d. case map_of e (fst p) of None \<Rightarrow> False | Some v \<Rightarrow> py_eq (snd p) v)
        | _ \<Rightarrow> False)
   | _ \<Rightarrow> False)"
  by pat_completeness auto
termination
  by (relation "measure (\<lambda>(a, b). size a)")
    (auto dest!: set_zip_leftD dest: size_dict_value simp: less_Suc_eq_le intro: size_list_estimation')

declare py_eq.simps [simp del]

text \<open>x in c: None stands for the TypeError of a container that has no membership test, of an
  unhashable key, or of a non-string sought in a string.\<close>

fun py_in :: "json \<Rightarrow> json \<Rightarrow> bool option" where
  "py_in x (JList ys) = Some (\<exists>y\<in>set ys. py_eq x y)"
| "py_in (JStr e) (JStr s) = Some (sublist e s)"
| "py_in (JList _) (JDict _) = None"
| "py_in (JDict _) (JDict _) = None"
| "py_in x (JDict d) = Some (\<exists>k\<in>fst ` set d. x = JStr k)"
| "py_in _ _ = None"

section \<open>Requests\<close>

datatype failure =
    NeverAnswered
  | HandBrakeMissing
  | EncoderNotListed json json
  | HealthNotOk
  | UnexpectedStatus int json
  | NoJobId
  | NotTerminal "pyfloat list"
  | SourceMissing string
  | NotCompleted json json
  | NoOutputPath
  | WrongOutputName string string
  | OutputMissing string
  | OutputTooSmall int
  | NoProgress
  | ProgressTooLow pyfloat
  | SourceSizeChanged int int
  | SourceMtimeChanged

text \<open>HTTPError is a URLError, and a URLError is an OSError.\<close>

datatype e2e_exc =
    E2EFailure failure
  | URLError string
  | HTTPError int
  | JSONDecodeError
  | Escaped exc
  | OtherError string

text \<open>What the network gives to one request: a status with a body of bytes, an OSError, or another
  exception of the HTTP client.\<close>

datatype wire = Answer int string | NoConnection string | Broken string

text \<open>bytes.decode(utf-8), strict and with errors=replace, json.loads, and str of a value that is
  not a string.\<close>

record codec =
  utf8 :: "string \<Rightarrow> string option"
  utf8_replace :: "string \<Rightarrow> string"
  loads_text :: decoder
  str_of :: "json \<Rightarrow> string"

definition loads_json :: "codec \<Rightarrow> string \<Rightarrow> e2e_exc + json" where
  "loads_json cd t = (case loads_text cd t of
     Loaded v \<Rightarrow> Inr v | DecodeError \<Rightarrow> Inl JSONDecodeError | LoadsRaised e \<Rightarrow> Inl (Escaped e))"

definition read_json :: "codec \<Rightarrow> string \<Rightarrow> e2e_exc + json" where
  "read_json cd raw = (case utf8 cd raw of
     None \<Rightarrow> Inl (OtherError ''UnicodeDecodeError'') | Some t \<Rightarrow> loads_json cd t)"

definition http_get :: "codec \<Rightarrow> wire \<Rightarrow> e2e_exc + json" where
  "http_get cd w = (case w of
     NoConnection e \<Rightarrow> Inl (URLError e)
   | Broken e \<Rightarrow> Inl (OtherError e)
   | Answer code raw \<Rightarrow> if 200 \<le> code \<and> code < 300 then read_json cd raw else Inl (HTTPError code))"

definition http_post :: "codec \<Rightarrow> wire \<Rightarrow> e2e_exc + int \<times> json" where
  "http_post cd w = (case w of
     NoConnection e \<Rightarrow> Inl (URLError e)
   | Broken e \<Rightarrow> Inl (OtherError e)
   | Answer code raw \<Rightarrow>
       if 200 \<le> code \<and> code < 300
       then (case read_json cd raw of Inl e \<Rightarrow> Inl e | Inr v \<Rightarrow> Inr (code, v))
       else (let text = utf8_replace cd raw in
         case loads_json cd text of
           Inr v \<Rightarrow> Inr (code, v)
         | Inl JSONDecodeError \<Rightarrow>
             Inr (code, JDict [(''code'', JStr ''unparseable''), (''reason'', JStr text)])
         | Inl e \<Rightarrow> Inl e))"

text \<open>v.get(key): only a dictionary has it.\<close>

definition py_get :: "json \<Rightarrow> string \<Rightarrow> e2e_exc + json" where
  "py_get v k = (case v of JDict d \<Rightarrow> Inr (dget d k) | _ \<Rightarrow> Inl (OtherError ''AttributeError''))"

text \<open>f-string rendering.\<close>

definition render :: "codec \<Rightarrow> json \<Rightarrow> string" where
  "render cd v = (case v of JStr s \<Rightarrow> s | _ \<Rightarrow> str_of cd v)"

text \<open>deadline = time.monotonic() + timeout, in floats.\<close>

fun fadd :: "pyfloat \<Rightarrow> pyfloat \<Rightarrow> pyfloat" where
  "fadd NaN _ = NaN"
| "fadd _ NaN = NaN"
| "fadd (Inf a) (Inf b) = (if a = b then Inf a else NaN)"
| "fadd (Inf a) (Fin _) = Inf a"
| "fadd (Fin _) (Inf b) = Inf b"
| "fadd (Fin x) (Fin y) = round64 (x + y)"

section \<open>Waiting for the service\<close>

fun retried :: "e2e_exc \<Rightarrow> bool" where
  "retried (URLError _) \<longleftrightarrow> True"
| "retried (HTTPError _) \<longleftrightarrow> True"
| "retried JSONDecodeError \<longleftrightarrow> True"
| "retried (Escaped (OSError _)) \<longleftrightarrow> True"
| "retried _ \<longleftrightarrow> False"

text \<open>Round n reads the clock, asks, and sleeps a second on a failure it retries.\<close>

fun health_loop :: "nat \<Rightarrow> codec \<Rightarrow> pyfloat \<Rightarrow> (nat \<Rightarrow> rat) \<Rightarrow> (nat \<Rightarrow> wire) \<Rightarrow> nat \<Rightarrow> (e2e_exc + json) option" where
  "health_loop 0 cd deadline clock reply n = None"
| "health_loop (Suc fuel) cd deadline clock reply n =
     (if flt (Fin (clock n)) deadline then
        (case http_get cd (reply n) of
           Inr v \<Rightarrow> Some (Inr v)
         | Inl e \<Rightarrow> if retried e then health_loop fuel cd deadline clock reply (Suc n) else Some (Inl e))
      else Some (Inl (E2EFailure NeverAnswered)))"

definition wait_for_health ::
    "nat \<Rightarrow> codec \<Rightarrow> pyfloat \<Rightarrow> rat \<Rightarrow> (nat \<Rightarrow> rat) \<Rightarrow> (nat \<Rightarrow> wire) \<Rightarrow> (e2e_exc + json) option" where
  "wait_for_health fuel cd timeout start_clock clock reply =
     health_loop fuel cd (fadd (Fin start_clock) timeout) clock reply 0"

definition check_health :: "json \<Rightarrow> json \<Rightarrow> e2e_exc + unit" where
  "check_health health encoder =
     (case health of
        JDict d \<Rightarrow>
          if \<not> truthy (dget d ''handbrake_available'') then Inl (E2EFailure HandBrakeMissing)
          else (let available = (if truthy (dget d ''encoders'') then dget d ''encoders'' else JList []) in
            case py_in encoder available of
              None \<Rightarrow> Inl (OtherError ''TypeError'')
            | Some False \<Rightarrow> Inl (E2EFailure (EncoderNotListed encoder available))
            | Some True \<Rightarrow>
                if \<not> py_eq (dget d ''status'') (JStr ''ok'') then Inl (E2EFailure HealthNotOk)
                else Inr ())
      | _ \<Rightarrow> Inl (OtherError ''AttributeError''))"

section \<open>Submitting and polling\<close>

definition job_payload :: "string \<Rightarrow> json \<Rightarrow> json \<Rightarrow> json" where
  "job_payload source_path preset preset_name =
     JDict [(''source_path'', JStr source_path), (''preset_json'', preset), (''preset_name'', preset_name)]"

definition submit_job :: "codec \<Rightarrow> (json \<Rightarrow> wire) \<Rightarrow> string \<Rightarrow> json \<Rightarrow> json \<Rightarrow> e2e_exc + json" where
  "submit_job cd post source_path preset preset_name =
     (case http_post cd (post (job_payload source_path preset preset_name)) of
        Inl e \<Rightarrow> Inl e
      | Inr (code, body) \<Rightarrow>
          if code \<noteq> 202 then Inl (E2EFailure (UnexpectedStatus code body))
          else (case py_get body ''job_id'' of
            Inl e \<Rightarrow> Inl e
          | Inr job_id \<Rightarrow> if \<not> truthy job_id then Inl (E2EFailure NoJobId) else Inr job_id))"

definition note_progress :: "json \<Rightarrow> pyfloat list \<Rightarrow> e2e_exc + pyfloat list" where
  "note_progress p seen =
     (case as_number p of
        None \<Rightarrow> Inr seen
      | Some x \<Rightarrow>
          if seen = [] \<or> \<not> feq (last seen) x then
            (case p of
               JInt n \<Rightarrow> (case float_of_int n of
                   None \<Rightarrow> Inl (OtherError ''OverflowError'') | Some y \<Rightarrow> Inr (seen @ [y]))
             | _ \<Rightarrow> Inr (seen @ [x]))
          else Inr seen)"

text \<open>status in a set of strings: an unhashable status is a TypeError.\<close>

definition final_statuses :: "string list" where
  "final_statuses = [''completed'', ''failed'', ''cancelled'']"

fun is_final :: "json \<Rightarrow> bool option" where
  "is_final (JStr s) = Some (s \<in> set final_statuses)"
| "is_final (JList _) = None"
| "is_final (JDict _) = None"
| "is_final _ = Some False"

fun poll_loop ::
    "nat \<Rightarrow> codec \<Rightarrow> pyfloat \<Rightarrow> (nat \<Rightarrow> rat) \<Rightarrow> (nat \<Rightarrow> wire) \<Rightarrow> nat \<Rightarrow> pyfloat list \<Rightarrow>
      (e2e_exc + dict \<times> pyfloat list) option" where
  "poll_loop 0 cd deadline clock reply n seen = None"
| "poll_loop (Suc fuel) cd deadline clock reply n seen =
     (if flt (Fin (clock n)) deadline then
        (case http_get cd (reply n) of
           Inl e \<Rightarrow> Some (Inl e)
         | Inr (JDict job) \<Rightarrow>
             (case note_progress (dget job ''progress'') seen of
                Inl e \<Rightarrow> Some (Inl e)
              | Inr seen' \<Rightarrow>
                  (case is_final (dget job ''status'') of
                     None \<Rightarrow> Some (Inl (OtherError ''TypeError''))
                   | Some True \<Rightarrow> Some (Inr (job, seen'))
                   | Some False \<Rightarrow> poll_loop fuel cd deadline clock reply (Suc n) seen'))
         | Inr _ \<Rightarrow> Some (Inl (OtherError ''AttributeError'')))
      else Some (Inl (E2EFailure (NotTerminal seen))))"

definition poll ::
    "nat \<Rightarrow> codec \<Rightarrow> pyfloat \<Rightarrow> rat \<Rightarrow> (nat \<Rightarrow> rat) \<Rightarrow> (nat \<Rightarrow> wire) \<Rightarrow>
      (e2e_exc + dict \<times> pyfloat list) option" where
  "poll fuel cd timeout start_clock clock reply =
     poll_loop fuel cd (fadd (Fin start_clock) timeout) clock reply 0 []"

section \<open>The whole check\<close>

record e2e_args =
  media_dir :: string
  container_root :: string
  source_name :: string
  health_timeout :: pyfloat
  encode_timeout :: pyfloat

text \<open>The world the script runs in: the preset file, the media directory before and after, the
  clock and the service.  A file is its size and modification time; None is an OSError.\<close>

record e2e_world =
  preset_file :: "e2e_exc + json"
  exists_before :: "string \<Rightarrow> bool"
  stat_before :: "string \<Rightarrow> (int \<times> pyfloat) option"
  exists_after :: "string \<Rightarrow> bool"
  stat_after :: "string \<Rightarrow> (int \<times> pyfloat) option"
  health_start :: rat
  health_clock :: "nat \<Rightarrow> rat"
  health_reply :: "nat \<Rightarrow> wire"
  post_reply :: "json \<Rightarrow> wire"
  poll_start :: rat
  poll_clock :: "nat \<Rightarrow> rat"
  poll_reply :: "string \<Rightarrow> nat \<Rightarrow> wire"

text \<open>preset_doc[PresetList][0] and its name and encoder; a missing key, an empty list or a value of
  the wrong type raises.\<close>

definition leaf_fields :: "json \<Rightarrow> e2e_exc + json \<times> json" where
  "leaf_fields doc =
     (case doc of
        JDict d \<Rightarrow>
          (case map_of d ''PresetList'' of
             Some (JList (JDict leaf # _)) \<Rightarrow>
               (case (map_of leaf ''PresetName'', map_of leaf ''VideoEncoder'') of
                  (Some name, Some encoder) \<Rightarrow> Inr (name, encoder)
                | _ \<Rightarrow> Inl (OtherError ''KeyError''))
           | _ \<Rightarrow> Inl (OtherError ''LookupError or TypeError''))
      | _ \<Rightarrow> Inl (OtherError ''TypeError''))"

text \<open>max keeps its candidate unless an item is greater.\<close>

definition py_max :: "pyfloat list \<Rightarrow> pyfloat" where
  "py_max xs = fold (\<lambda>x m. if flt m x then x else m) (tl xs) (hd xs)"

definition e2e_prefix :: string where
  "e2e_prefix = ''.hbenc-''"

text \<open>The assertions on a completed job: its output name and file, the progress seen, and the source.\<close>

definition check_output :: "codec \<Rightarrow> e2e_args \<Rightarrow> e2e_world \<Rightarrow> json \<Rightarrow> dict \<Rightarrow> e2e_exc + string \<times> int" where
  "check_output cd args w job_id job =
     (let output_path = dget job ''output_path'' in
      if \<not> truthy output_path then Inl (E2EFailure NoOutputPath)
      else (case output_path of
        JStr path \<Rightarrow>
          (let base = basename path; expected = e2e_prefix @ render cd job_id @ ''.'' in
           if \<not> prefix expected base then Inl (E2EFailure (WrongOutputName base expected))
           else (let output_host = os_path_join (media_dir args) base in
             if \<not> exists_after w output_host then Inl (E2EFailure (OutputMissing output_host))
             else (case stat_after w output_host of
               None \<Rightarrow> Inl (OtherError ''OSError'')
             | Some (bytes, _) \<Rightarrow>
                 if bytes < 1024 then Inl (E2EFailure (OutputTooSmall bytes)) else Inr (base, bytes))))
      | _ \<Rightarrow> Inl (OtherError ''TypeError'')))"

definition check_progress :: "pyfloat list \<Rightarrow> e2e_exc + unit" where
  "check_progress seen =
     (if seen = [] then Inl (E2EFailure NoProgress)
      else if flt (py_max seen) (Fin 50) then Inl (E2EFailure (ProgressTooLow (py_max seen)))
      else Inr ())"

definition check_source :: "int \<times> pyfloat \<Rightarrow> (int \<times> pyfloat) option \<Rightarrow> e2e_exc + unit" where
  "check_source before after =
     (case after of
        None \<Rightarrow> Inl (OtherError ''OSError'')
      | Some (bytes, mtime) \<Rightarrow>
          if bytes \<noteq> fst before then Inl (E2EFailure (SourceSizeChanged (fst before) bytes))
          else if \<not> feq mtime (snd before) then Inl (E2EFailure SourceMtimeChanged)
          else Inr ())"

definition judge ::
    "codec \<Rightarrow> e2e_args \<Rightarrow> e2e_world \<Rightarrow> int \<times> pyfloat \<Rightarrow> json \<Rightarrow> dict \<Rightarrow> pyfloat list \<Rightarrow> e2e_exc + string \<times> int" where
  "judge cd args w before job_id job seen =
     (if \<not> py_eq (dget job ''status'') (JStr ''completed'')
      then Inl (E2EFailure (NotCompleted (dget job ''status'') (dget job ''error'')))
      else (case check_output cd args w job_id job of
        Inl e \<Rightarrow> Inl e
      | Inr out \<Rightarrow>
          (case check_progress seen of
             Inl e \<Rightarrow> Inl e
           | Inr _ \<Rightarrow>
               (case check_source before
                    (stat_after w (os_path_join (media_dir args) (source_name args))) of
                  Inl e \<Rightarrow> Inl e
                | Inr _ \<Rightarrow> Inr out))))"

definition run_check ::
    "nat \<Rightarrow> codec \<Rightarrow> e2e_args \<Rightarrow> e2e_world \<Rightarrow> (e2e_exc + string \<times> int) option" where
  "run_check fuel cd args w =
     (case preset_file w of
        Inl e \<Rightarrow> Some (Inl e)
      | Inr doc \<Rightarrow>
     (case leaf_fields doc of
        Inl e \<Rightarrow> Some (Inl e)
      | Inr (name, encoder) \<Rightarrow>
     (let source_host = os_path_join (media_dir args) (source_name args) in
      if \<not> exists_before w source_host then Some (Inl (E2EFailure (SourceMissing source_host)))
      else (case stat_before w source_host of
        None \<Rightarrow> Some (Inl (OtherError ''OSError''))
      | Some before \<Rightarrow>
     (case wait_for_health fuel cd (health_timeout args) (health_start w) (health_clock w) (health_reply w) of
        None \<Rightarrow> None
      | Some (Inl e) \<Rightarrow> Some (Inl e)
      | Some (Inr health) \<Rightarrow>
     (case check_health health encoder of
        Inl e \<Rightarrow> Some (Inl e)
      | Inr _ \<Rightarrow>
     (case submit_job cd (post_reply w) (container_root args @ ''/'' @ source_name args) doc name of
        Inl e \<Rightarrow> Some (Inl e)
      | Inr job_id \<Rightarrow>
     (case poll fuel cd (encode_timeout args) (poll_start w) (poll_clock w) (poll_reply w (render cd job_id)) of
        None \<Rightarrow> None
      | Some (Inl e) \<Rightarrow> Some (Inl e)
      | Some (Inr (job, seen)) \<Rightarrow> Some (judge cd args w before job_id job seen)))))))))"

text \<open>The exit status of the process: 0 after PASS, 1 after a failed check and after any other
  exception.\<close>

definition exit_status :: "e2e_exc + string \<times> int \<Rightarrow> int" where
  "exit_status r = (case r of Inr _ \<Rightarrow> 0 | Inl _ \<Rightarrow> 1)"

section \<open>The loops end\<close>

lemma health_loop_ends:
  "\<not> flt (Fin (clock (n + k))) deadline \<Longrightarrow> k < fuel \<Longrightarrow> health_loop fuel cd deadline clock reply n \<noteq> None"
proof (induction k arbitrary: n fuel)
  case (Suc k)
  then obtain f where "fuel = Suc f" by (cases fuel) auto
  then show ?case using Suc.IH [of "Suc n" f] Suc.prems by (auto split: sum.splits)
qed (case_tac fuel; auto)

lemma poll_loop_ends:
  "\<not> flt (Fin (clock (n + k))) deadline \<Longrightarrow> k < fuel \<Longrightarrow>
     poll_loop fuel cd deadline clock reply n seen \<noteq> None"
proof (induction k arbitrary: n fuel seen)
  case (Suc k)
  then obtain f where "fuel = Suc f" by (cases fuel) auto
  then show ?case using Suc.IH [of "Suc n" f] Suc.prems
    by (auto split: sum.splits json.splits option.splits bool.splits)
qed (case_tac fuel; auto)

text \<open>The number of rounds a loop can make before the clock passes the deadline.\<close>

definition rounds :: "rat \<Rightarrow> rat \<Rightarrow> rat \<Rightarrow> nat" where
  "rounds gain first deadline = nat \<lceil>(deadline - first) / gain\<rceil>"

lemma clock_passes:
  assumes "0 < gain" and "\<And>n. clock n + gain \<le> clock (Suc n)"
  shows "\<not> flt (Fin (clock (0 + rounds gain (clock 0) d))) (Fin d)"
proof -
  have run: "clock 0 + of_nat n * gain \<le> clock n" for n
  proof (induction n)
    case (Suc n)
    then show ?case using assms(2) [of n] by (simp add: algebra_simps)
  qed simp
  let ?q = "(d - clock 0) / gain"
  have "?q \<le> of_int \<lceil>?q\<rceil>" by simp
  also have "\<dots> \<le> of_nat (rounds gain (clock 0) d)" by (simp add: rounds_def)
  finally have "d - clock 0 \<le> of_nat (rounds gain (clock 0) d) * gain"
    using assms(1) by (simp add: pos_divide_le_eq)
  then show ?thesis using run [of "rounds gain (clock 0) d"] by simp
qed

text \<open>C28. The check always ends: when both sleeps move the clock on by at least some positive amount per
  round and the deadlines are finite, no run needs more rounds than the time to the later deadline
  divided by that amount, whatever the service answers.\<close>

theorem e2e_check_ends:
  assumes "0 < gain"
    and "\<And>n. health_clock w n + gain \<le> health_clock w (Suc n)"
    and "\<And>n. poll_clock w n + gain \<le> poll_clock w (Suc n)"
    and "fadd (Fin (health_start w)) (health_timeout args) = Fin dh"
    and "fadd (Fin (poll_start w)) (encode_timeout args) = Fin dp"
    and "rounds gain (health_clock w 0) dh < fuel" and "rounds gain (poll_clock w 0) dp < fuel"
  shows "\<exists>r. run_check fuel cd args w = Some r"
proof -
  have h: "wait_for_health fuel cd (health_timeout args) (health_start w) (health_clock w) reply \<noteq> None" for reply
    unfolding wait_for_health_def assms(4)
    by (rule health_loop_ends [OF clock_passes [of gain] assms(6)]) (simp_all add: assms(1,2))
  have p: "(poll fuel cd (encode_timeout args) (poll_start w) (poll_clock w) reply = None) = False" for reply
    unfolding poll_def assms(5) eq_False
    by (rule poll_loop_ends [OF clock_passes [of gain] assms(7)]) (simp_all add: assms(1,3))
  show ?thesis using h [of "health_reply w"]
    by (auto simp: run_check_def Let_def p split: sum.splits option.splits)
qed

definition demo_loads :: decoder where
  "demo_loads t =
     (if t = ''H'' then Loaded (JDict [(''status'', JStr ''ok''), (''handbrake_available'', JBool True),
        (''encoders'', JList [JStr ''x264''])])
      else if t = ''J'' then Loaded (JDict [(''job_id'', JStr ''a'')])
      else if t = ''R'' then Loaded (JDict [(''status'', JStr ''running''), (''progress'', JFloat (Fin 60))])
      else if t = ''C'' then Loaded (JDict [(''status'', JStr ''completed''), (''progress'', JFloat (Fin 100)),
        (''output_path'', JStr ''/media1/.hbenc-a.mkv'')])
      else DecodeError)"

definition demo_codec :: codec where
  "demo_codec = \<lparr>utf8 = Some, utf8_replace = (\<lambda>s. s), loads_text = demo_loads, str_of = (\<lambda>_. [])\<rparr>"

definition demo_args :: e2e_args where
  "demo_args = \<lparr>media_dir = ''/m'', container_root = ''/media1'', source_name = ''s.mp4'',
     health_timeout = Fin 3, encode_timeout = Fin 5\<rparr>"

definition demo_files :: "string \<Rightarrow> (int \<times> pyfloat) option" where
  "demo_files p = (if p = ''/m/s.mp4'' then Some (9000, Fin 1)
     else if p = ''/m/.hbenc-a.mkv'' then Some (5000, Fin 2) else None)"

definition demo_world :: e2e_world where
  "demo_world = \<lparr>preset_file = Inr (JDict [(''PresetList'', JList [JDict [(''PresetName'', JStr ''P''),
       (''VideoEncoder'', JStr ''x264'')]])]),
     exists_before = (\<lambda>p. demo_files p \<noteq> None), stat_before = demo_files,
     exists_after = (\<lambda>p. demo_files p \<noteq> None), stat_after = demo_files,
     health_start = 0, health_clock = of_nat,
     health_reply = (\<lambda>n. if n = 0 then NoConnection ''refused'' else Answer 200 ''H''),
     post_reply = (\<lambda>_. Answer 202 ''J''),
     poll_start = 0, poll_clock = of_nat,
     poll_reply = (\<lambda>_ n. if n < 2 then Answer 200 ''R'' else Answer 200 ''C'')\<rparr>"

lemma demo_deadlines: "fadd (Fin 0) (Fin 3) = Fin 3" "fadd (Fin 0) (Fin 5) = Fin 5"
proof -
  have "round64 3 = Fin 3" by code_simp
  then show "fadd (Fin 0) (Fin 3) = Fin 3" by simp
  have "round64 5 = Fin 5" by code_simp
  then show "fadd (Fin 0) (Fin 5) = Fin 5" by simp
qed

lemmas demo_defs = demo_loads_def demo_codec_def demo_args_def demo_files_def demo_world_def

theorem e2e_check_ends_witness:
  "\<exists>r. run_check 6 demo_codec demo_args demo_world = Some r"
  by (rule e2e_check_ends [where gain = 1 and dh = 3 and dp = 5])
    (simp_all add: demo_args_def demo_world_def demo_deadlines rounds_def del: fadd.simps)

lemma demo_passes: "run_check 6 demo_codec demo_args demo_world = Some (Inr (''.hbenc-a.mkv'', 5000))"
  by code_simp

section \<open>What polling observes\<close>

text \<open>What one answer adds: a number that differs from the last value kept is appended as a float; anything
  that is no number is skipped.\<close>

definition as_float :: "json \<Rightarrow> pyfloat" where
  "as_float p = (case p of JInt n \<Rightarrow> (case float_of_int n of Some y \<Rightarrow> y | None \<Rightarrow> NaN)
     | _ \<Rightarrow> (case as_number p of Some x \<Rightarrow> x | None \<Rightarrow> NaN))"

definition keep_new :: "json \<Rightarrow> pyfloat list \<Rightarrow> pyfloat list" where
  "keep_new p s = (case as_number p of None \<Rightarrow> s
     | Some x \<Rightarrow> if s = [] \<or> \<not> feq (last s) x then s @ [as_float p] else s)"

abbreviation is_number :: "json \<Rightarrow> bool" where
  "is_number p \<equiv> as_number p \<noteq> None"

lemma feq_eq: "feq x y \<Longrightarrow> x = y"
  by (cases "(x, y)" rule: feq.cases) simp_all

lemma note_progress_keeps: "note_progress p s = Inr s' \<Longrightarrow> s' = keep_new p s"
  by (auto simp: note_progress_def keep_new_def as_float_def split: option.splits if_splits json.splits)

abbreviation keep_all :: "json list \<Rightarrow> pyfloat list" where
  "keep_all ps \<equiv> fold keep_new ps []"

lemma keep_all_numbers: "fold keep_new (filter is_number ps) s = fold keep_new ps s"
  by (induction ps arbitrary: s) (auto simp: keep_new_def)

lemma keep_all_snoc:
  "as_number p = Some x \<Longrightarrow> keep_all (ps @ [p]) =
     (if keep_all ps = [] \<or> \<not> feq (last (keep_all ps)) x then keep_all ps @ [as_float p] else keep_all ps)"
  by (simp add: keep_new_def)

lemma subseq_keep_all: "\<forall>p\<in>set ps. is_number p \<Longrightarrow> subseq (keep_all ps) (map as_float ps)"
proof (induction ps rule: rev_induct)
  case (snoc p ps)
  then obtain x where x: "as_number p = Some x" by auto
  have "subseq (keep_all ps) (map as_float ps @ [as_float p])" using snoc by (intro list_emb_prefix) simp
  then show ?case unfolding keep_all_snoc [OF x] using snoc by simp
qed simp

lemma last_keep_all:
  assumes "\<forall>p\<in>set ps. is_number p" and "ps \<noteq> []"
  shows "keep_all ps \<noteq> [] \<and> (last (keep_all ps) = as_float (last ps) \<or> as_number (last ps) = Some (last (keep_all ps)))"
proof -
  obtain qs p where ps: "ps = qs @ [p]" using assms(2) by (cases ps rule: rev_cases) auto
  then obtain x where x: "as_number p = Some x" using assms(1) by auto
  show ?thesis using x feq_eq unfolding ps keep_all_snoc [OF x] by auto
qed

lemma keep_all_covers:
  "\<forall>p\<in>set ps. is_number p \<Longrightarrow> p \<in> set ps \<Longrightarrow> as_float p \<in> set (keep_all ps) \<or> as_number p \<in> Some ` set (keep_all ps)"
proof (induction ps rule: rev_induct)
  case (snoc q ps)
  then obtain x where x: "as_number q = Some x" by auto
  have l: "keep_all (ps @ [q]) \<noteq> []"
    "last (keep_all (ps @ [q])) = as_float q \<or> as_number q = Some (last (keep_all (ps @ [q])))"
    using last_keep_all [of "ps @ [q]"] snoc.prems(1) by auto
  show ?case
  proof (cases "p = q")
    case True
    then show ?thesis using l(2) last_in_set [OF l(1)] by (metis image_eqI)
  next
    case False
    then show ?thesis using snoc unfolding keep_all_snoc [OF x] by auto
  qed
qed simp

lemma neighbours_keep_all:
  "\<forall>p\<in>set ps. as_number p = Some (as_float p) \<Longrightarrow> successively (\<lambda>x y. \<not> feq x y) (keep_all ps)"
proof (induction ps rule: rev_induct)
  case (snoc p ps)
  then show ?case unfolding keep_all_snoc [OF snoc.prems [rule_format, of p], simplified]
    by (simp add: successively_append_iff keep_new_def)
qed simp

lemma poll_loop_sound:
  assumes "poll_loop fuel cd deadline clock reply n seen = Some (Inr (job, out))"
  shows "\<exists>js. js \<noteq> [] \<and> last js = job \<and> out = fold keep_new (map (\<lambda>j. dget j ''progress'') js) seen \<and>
    (\<forall>k<length js. flt (Fin (clock (n + k))) deadline \<and> http_get cd (reply (n + k)) = Inr (JDict (js ! k)) \<and>
       is_final (dget (js ! k) ''status'') = Some (Suc k = length js))"
  using assms
proof (induction fuel arbitrary: n seen)
  case (Suc fuel)
  then obtain v where v: "flt (Fin (clock n)) deadline" "http_get cd (reply n) = Inr (JDict v)"
    by (auto split: if_splits sum.splits json.splits)
  obtain seen' where np: "note_progress (dget v ''progress'') seen = Inr seen'"
    using Suc.prems v by (auto split: sum.splits)
  have s': "seen' = keep_new (dget v ''progress'') seen" by (rule note_progress_keeps [OF np])
  obtain b where b: "is_final (dget v ''status'') = Some b"
    using Suc.prems v np by (auto split: option.splits)
  show ?case
  proof (cases b)
    case True
    then have "job = v" "out = seen'" using Suc.prems v np b by simp_all
    then show ?thesis using v b True s' by (intro exI [of _ "[v]"]) simp
  next
    case False
    then have "poll_loop fuel cd deadline clock reply (Suc n) seen' = Some (Inr (job, out))"
      using Suc.prems v np b by simp
    then obtain js where ih: "js \<noteq> []" "last js = job" "out = fold keep_new (map (\<lambda>j. dget j ''progress'') js) seen'"
      "\<And>k. k < length js \<Longrightarrow> flt (Fin (clock (Suc n + k))) deadline \<and>
         http_get cd (reply (Suc n + k)) = Inr (JDict (js ! k)) \<and>
         is_final (dget (js ! k) ''status'') = Some (Suc k = length js)"
      using Suc.IH by metis
    have "flt (Fin (clock (n + k))) deadline \<and> http_get cd (reply (n + k)) = Inr (JDict ((v # js) ! k)) \<and>
        is_final (dget ((v # js) ! k) ''status'') = Some (Suc k = length (v # js))"
      if "k < length (v # js)" for k
      using that v b False ih(1) ih(4) [of "k - 1"] by (cases k) auto
    then show ?thesis using ih(1-3) s' by (intro exI [of _ "v # js"]) auto
  qed
qed simp

text \<open>C27. Polling tells the truth about the job: when it returns, every round was before the deadline and
  was answered with a dictionary, the job is the answer of the last round and the first one in a final
  state.  The progress list is made of the numbers among the reported progress values (a missing
  one or one that is no number is skipped), as floats, in order; every number reported is in it, and it
  ends with the last one, up to an int standing for the float it equals.  When every number is its own
  float (as in this service's answers), the list holds exactly the values reported, with only
  immediate repetitions left out.\<close>

theorem poll_observes_the_job:
  assumes "poll fuel cd timeout start_clock clock reply = Some (Inr (job, seen))"
  shows "\<exists>js ps. js \<noteq> [] \<and> last js = job \<and> ps = filter is_number (map (\<lambda>j. dget j ''progress'') js) \<and>
    (\<forall>k<length js. flt (Fin (clock k)) (fadd (Fin start_clock) timeout) \<and>
       http_get cd (reply k) = Inr (JDict (js ! k)) \<and>
       (dget (js ! k) ''status'' \<in> JStr ` set final_statuses \<longleftrightarrow> Suc k = length js)) \<and>
    subseq seen (map as_float ps) \<and>
    (\<forall>p\<in>set ps. as_float p \<in> set seen \<or> as_number p \<in> Some ` set seen) \<and>
    (ps \<noteq> [] \<longrightarrow> seen \<noteq> [] \<and> (last seen = as_float (last ps) \<or> as_number (last ps) = Some (last seen))) \<and>
    ((\<forall>p\<in>set ps. as_number p = Some (as_float p)) \<longrightarrow>
       set seen = as_float ` set ps \<and> successively (\<lambda>x y. \<not> feq x y) seen)"
proof -
  have final: "is_final v = Some b \<Longrightarrow> v \<in> JStr ` set final_statuses \<longleftrightarrow> b" for v b
    by (cases v) auto
  obtain js where p: "js \<noteq> []" "last js = job" "seen = keep_all (map (\<lambda>j. dget j ''progress'') js)"
    "\<And>k. k < length js \<Longrightarrow> flt (Fin (clock k)) (fadd (Fin start_clock) timeout) \<and>
       http_get cd (reply k) = Inr (JDict (js ! k)) \<and>
       is_final (dget (js ! k) ''status'') = Some (Suc k = length js)"
    using poll_loop_sound [OF assms [unfolded poll_def]] by auto
  define ps where "ps = filter is_number (map (\<lambda>j. dget j ''progress'') js)"
  have seen: "seen = keep_all ps" by (simp only: p(3) ps_def keep_all_numbers)
  have num: "\<forall>p\<in>set ps. is_number p" by (simp add: ps_def)
  have sub: "subseq seen (map as_float ps)" unfolding seen by (rule subseq_keep_all [OF num])
  have cov: "\<forall>p\<in>set ps. as_float p \<in> set seen \<or> as_number p \<in> Some ` set seen"
    unfolding seen using keep_all_covers [OF num] by blast
  have set: "set seen = as_float ` set ps" if "\<forall>p\<in>set ps. as_number p = Some (as_float p)"
    proof
    obtain N where "seen = nths (map as_float ps) N" using sub by (auto simp: subseq_conv_nths)
    then show "set seen \<subseteq> as_float ` set ps" using set_nths_subset [of "map as_float ps" N] by simp
    show "as_float ` set ps \<subseteq> set seen" using that cov by auto
  qed
  have nb: "successively (\<lambda>x y. \<not> feq x y) seen" if "\<forall>p\<in>set ps. as_number p = Some (as_float p)"
    unfolding seen by (rule neighbours_keep_all [OF that])
  have rounds: "flt (Fin (clock k)) (fadd (Fin start_clock) timeout) \<and> http_get cd (reply k) = Inr (JDict (js ! k)) \<and>
      (dget (js ! k) ''status'' \<in> JStr ` set final_statuses \<longleftrightarrow> Suc k = length js)" if "k < length js" for k
    using p(4) [OF that] final by blast
  show ?thesis
    using p(1,2) ps_def rounds sub cov set nb last_keep_all [OF num]
    by (intro exI [of _ js] exI [of _ ps]) (simp add: seen)
qed

definition demo_job :: dict where
  "demo_job = [(''status'', JStr ''completed''), (''progress'', JFloat (Fin 100)),
     (''output_path'', JStr ''/media1/.hbenc-a.mkv'')]"

theorem poll_observes_the_job_witness:
  "poll 6 demo_codec (Fin 5) 0 of_nat (poll_reply demo_world ''a'') = Some (Inr (demo_job, [Fin 60, Fin 100])) \<and>
   (\<exists>js. last js = demo_job \<and> subseq [Fin 60, Fin 100] (map as_float (filter is_number (map (\<lambda>j. dget j ''progress'') js))))"
proof -
  have run: "poll 6 demo_codec (Fin 5) 0 of_nat (poll_reply demo_world ''a'') =
      Some (Inr (demo_job, [Fin 60, Fin 100]))"
    by code_simp
  then show ?thesis using poll_observes_the_job [OF run] by blast
qed

section \<open>What PASS means\<close>

lemma py_eq_str [simp]: "py_eq v (JStr s) \<longleftrightarrow> v = JStr s"
  by (cases v) (simp_all add: py_eq.simps)

lemma health_loop_answer:
  "health_loop fuel cd deadline clock reply n = Some (Inr v) \<Longrightarrow> \<exists>k. http_get cd (reply k) = Inr v"
  by (induction fuel arbitrary: n) (auto split: if_splits sum.splits)

lemma poll_loop_answer:
  "poll_loop fuel cd deadline clock reply n s = Some (Inr (job, seen)) \<Longrightarrow>
     \<exists>k. http_get cd (reply k) = Inr (JDict job)"
  by (induction fuel arbitrary: n s)
    (auto split: if_splits sum.splits json.splits option.splits bool.splits)

lemma py_in_falsy: "\<not> truthy c \<Longrightarrow> py_in e (JList []) = Some False"
  by simp

lemma check_health_ok:
  "check_health health e = Inr u \<Longrightarrow> \<exists>d. health = JDict d \<and> truthy (dget d ''handbrake_available'') \<and>
     py_in e (dget d ''encoders'') = Some True \<and> dget d ''status'' = JStr ''ok''"
  by (auto simp: check_health_def Let_def split: json.splits if_splits option.splits bool.splits)

lemma submit_job_ok:
  "submit_job cd post path preset name = Inr job_id \<Longrightarrow>
     \<exists>body. http_post cd (post (job_payload path preset name)) = Inr (202, JDict body) \<and>
       dget body ''job_id'' = job_id \<and> truthy job_id"
  by (auto simp: submit_job_def py_get_def split: sum.splits if_splits json.splits)

lemma check_output_ok:
  "check_output cd args w job_id job = Inr (base, bytes) \<Longrightarrow>
     \<exists>path mtime. dget job ''output_path'' = JStr path \<and> base = basename path \<and>
       prefix (e2e_prefix @ render cd job_id @ ''.'') base \<and>
       exists_after w (os_path_join (media_dir args) base) \<and>
       stat_after w (os_path_join (media_dir args) base) = Some (bytes, mtime) \<and> 1024 \<le> bytes"
  by (auto simp: check_output_def Let_def split: json.splits if_splits option.splits)

lemma check_source_ok:
  "check_source before after = Inr u \<Longrightarrow> \<exists>mtime. after = Some (fst before, mtime) \<and> feq mtime (snd before)"
  by (auto simp: check_source_def split: option.splits if_splits)

lemma py_max_mem: "xs \<noteq> [] \<Longrightarrow> py_max xs \<in> set xs"
proof -
  have "fold (\<lambda>x m. if flt m x then x else m) ys y \<in> insert y (set ys)" for y ys
    by (induction ys arbitrary: y) auto
  then show "xs \<noteq> [] \<Longrightarrow> py_max xs \<in> set xs" by (cases xs) (auto simp: py_max_def)
qed

lemma check_progress_ok:
  "check_progress seen = Inr u \<Longrightarrow> \<exists>x\<in>set seen. \<not> flt x (Fin 50)"
  using py_max_mem by (auto simp: check_progress_def split: if_splits)

lemma judge_ok:
  "judge cd args w before job_id job seen = Inr out \<Longrightarrow>
     dget job ''status'' = JStr ''completed'' \<and> check_output cd args w job_id job = Inr out \<and>
     check_progress seen = Inr () \<and>
     check_source before (stat_after w (os_path_join (media_dir args) (source_name args))) = Inr ()"
  by (auto simp: judge_def split: if_splits sum.splits)

text \<open>C26. PASS is never printed unasked for: exit status 0 means that the service reported itself healthy
  with the preset's encoder, accepted the job with 202 and an id, later reported that job completed;
  that the reported output has the name contract of the job and exists in the media directory with
  at least 1024 bytes; that a progress not below 50 was seen; and that the source has the size and
  time it had before.\<close>

theorem pass_means_checked:
  assumes "run_check fuel cd args w = Some r" and "exit_status r = 0"
  shows "\<exists>doc name encoder k health body job_id j job seen path bytes mtime n t t'.
    preset_file w = Inr doc \<and> leaf_fields doc = Inr (name, encoder) \<and>
    http_get cd (health_reply w k) = Inr (JDict health) \<and>
    truthy (dget health ''handbrake_available'') \<and> py_in encoder (dget health ''encoders'') = Some True \<and>
    dget health ''status'' = JStr ''ok'' \<and>
    http_post cd (post_reply w (job_payload (container_root args @ ''/'' @ source_name args) doc name)) =
      Inr (202, JDict body) \<and>
    dget body ''job_id'' = job_id \<and> truthy job_id \<and>
    http_get cd (poll_reply w (render cd job_id) j) = Inr (JDict job) \<and>
    dget job ''status'' = JStr ''completed'' \<and>
    poll fuel cd (encode_timeout args) (poll_start w) (poll_clock w) (poll_reply w (render cd job_id)) =
      Some (Inr (job, seen)) \<and>
    (\<exists>x\<in>set seen. \<not> flt x (Fin 50)) \<and>
    dget job ''output_path'' = JStr path \<and> r = Inr (basename path, bytes) \<and>
    prefix (''.hbenc-'' @ render cd job_id @ ''.'') (basename path) \<and>
    stat_after w (os_path_join (media_dir args) (basename path)) = Some (bytes, mtime) \<and> 1024 \<le> bytes \<and>
    stat_before w (os_path_join (media_dir args) (source_name args)) = Some (n, t) \<and>
    stat_after w (os_path_join (media_dir args) (source_name args)) = Some (n, t') \<and> feq t' t"
proof -
  obtain out where "r = Inr out" using assms(2) by (cases r) (simp_all add: exit_status_def)
  then obtain doc name encoder n t health u job_id job seen where
    d: "preset_file w = Inr doc" "leaf_fields doc = Inr (name, encoder)"
    and b: "stat_before w (os_path_join (media_dir args) (source_name args)) = Some (n, t)"
    and h: "wait_for_health fuel cd (health_timeout args) (health_start w) (health_clock w) (health_reply w) =
        Some (Inr health)" "check_health health encoder = Inr u"
    and s: "submit_job cd (post_reply w) (container_root args @ ''/'' @ source_name args) doc name = Inr job_id"
    and p: "poll fuel cd (encode_timeout args) (poll_start w) (poll_clock w) (poll_reply w (render cd job_id)) =
        Some (Inr (job, seen))"
    and j: "judge cd args w (n, t) job_id job seen = Inr out"
    using assms(1)
    by (auto simp: run_check_def Let_def split: sum.splits if_splits option.splits)
  note j = judge_ok [OF j]
  obtain base bytes where out: "out = (base, bytes)" by force
  show ?thesis
    using d b p health_loop_answer [OF h(1) [unfolded wait_for_health_def]] check_health_ok [OF h(2)]
      submit_job_ok [OF s] poll_loop_answer [OF p [unfolded poll_def]] j
      check_output_ok [OF j [THEN conjunct2, THEN conjunct1, unfolded out]]
      check_progress_ok [OF j [THEN conjunct2, THEN conjunct2, THEN conjunct1]]
      check_source_ok [OF j [THEN conjunct2, THEN conjunct2, THEN conjunct2]] \<open>r = Inr out\<close> out
    unfolding e2e_prefix_def by fastforce
qed

theorem pass_means_checked_witness:
  "(\<exists>k d. http_get demo_codec (health_reply demo_world k) = Inr (JDict d) \<and> truthy (dget d ''handbrake_available'')) \<and>
   (\<exists>k d. http_get demo_codec (poll_reply demo_world ''a'' k) = Inr (JDict d) \<and> dget d ''status'' = JStr ''completed'')"
proof -
  have "exit_status (Inr (''.hbenc-a.mkv'', 5000)) = 0" by (simp add: exit_status_def)
  note all = pass_means_checked [OF demo_passes this]
  have post: "post_reply demo_world p = Answer 202 ''J''" for p by (simp add: demo_world_def)
  obtain job_id body k d j job where
    w: "http_get demo_codec (health_reply demo_world k) = Inr (JDict d)" "truthy (dget d ''handbrake_available'')"
      "http_post demo_codec (Answer 202 ''J'') = Inr (202, JDict body)" "dget body ''job_id'' = job_id"
      "http_get demo_codec (poll_reply demo_world (render demo_codec job_id) j) = Inr (JDict job)"
      "dget job ''status'' = JStr ''completed''"
    using all unfolding post by blast
  have "job_id = JStr ''a''"
    using w(3,4) by (auto simp: http_post_def read_json_def loads_json_def demo_codec_def demo_loads_def)
  then have "render demo_codec job_id = ''a''" by (simp add: render_def)
  then show ?thesis using w(1,2,5,6) by metis
qed

text \<open>The service's own names satisfy the contract that the check tests: a job that completed with the
  output path derived for its id passes, when its file is there and large enough, progress of at
  least 50 was seen, and the source is as before.\<close>

lemma service_output_passes:
  assumes "derive_output_path source job_id ext = Inr dst"
    and "dget job ''status'' = JStr ''completed''" and "dget job ''output_path'' = JStr dst"
    and "exists_after w (os_path_join (media_dir args) (basename dst))"
    and "stat_after w (os_path_join (media_dir args) (basename dst)) = Some (bytes, mtime)" and "1024 \<le> bytes"
    and "seen \<noteq> []" and "\<not> flt (py_max seen) (Fin 50)"
    and "stat_after w (os_path_join (media_dir args) (source_name args)) = Some (n, t')" and "feq t' t"
  shows "judge cd args w (n, t) (JStr job_id) job seen = Inr (basename dst, bytes)"
proof -
  note names = derived_basename [OF assms(1)]
  then have "dst \<noteq> []" by (auto simp: OUTPUT_PREFIX_def basename_def)
  then have "check_output cd args w (JStr job_id) job = Inr (basename dst, bytes)"
    using assms(3-6) by (simp add: check_output_def Let_def render_def e2e_prefix_def names OUTPUT_PREFIX_def)
  then show ?thesis
    using assms(2,7-10) by (simp add: judge_def check_progress_def check_source_def)
qed

end
