(* ===== verification/Spec2Isabelle.thy ===== *)
theory Spec2Isabelle
  imports Config Paths Presets Encoders Gpu BodyLimit Progress Json Printed Realpath Runner JobsProperties Board Ops Intake Api E2E
begin

text \<open>
  A verification library for the HandBrake encoder service (src/app) and its end-to-end check
  (src/scripts/e2e_encode.py).

  The program.  A FastAPI process accepts a POST with a source path and a HandBrake preset document
  (main.py, models.py), checks the path against configured roots (paths.py, config.py), the preset
  (presets.py) and the encoder (encoders.py), and queues a job in the store (job_manager.py).  A
  worker thread takes the job and runs the encode operation (ops.py): it claims a staging file
  beside the source, runs HandBrakeCLI on it (handbrake_runner.py), reads its progress from stdout,
  and renames the finished file to its published name or removes the partial one.  Clients poll
  and delete jobs, a sweeper evicts old ones, and the lifespan shuts the store down.  An ASGI
  middleware bounds the size of request bodies (limits.py); GPU and version probes feed the health
  report (gpu.py).

  The theories, and the code they model.
    Prelude: Python strings (code points up to 255), strip, split, splitlines, int(text), maps, and
      the locales invariant_system and refinement that the stateful components interpret.
    Values: binary64 floats as exact rationals with explicit rounding, and decoded JSON.
    Errors: one constructor per exception class and per raise statement.
    PosixPath: posixpath.normpath, commonpath, dirname, basename, join.
    Config (config.py): parse_roots and the settings.
    Paths (paths.py): validate_source_path and the two derived names.  What a token may contain, that
      a validated source lies beneath a root, that derived names are siblings of the source and
      differ from each other.
    Realpath: os.path.realpath and isfile on a file system with symbolic links, against the walk of the
      kernel: a path that resolves without meeting a link inside its own resolution is validated as
      the file that is then opened; a link that leads to itself defeats the check, and a chain of links
      longer than the recursion limit escapes from it.
    Presets (presets.py): the leaves of a document, the lookup, encoder and container of a preset.
    Encoders (encoders.py): the two parsers of HandBrakeCLI output and the probe cache with its
      generation counter.
    Gpu (gpu.py): the lspci and nvidia-smi probes.
    BodyLimit (limits.py): the middleware, for a stream of ASGI messages.
    Progress and Runner (handbrake_runner.py): the incremental scanner for JSON objects, the
      remaining-time estimate, the stdout loop with its buffer, the end of the process and the
      verdict, the cancel watcher, the version probe.  The lemmas show that the scanner extracts
      exactly the balanced objects, that reading line by line reports what one pass over the whole
      output would, which outcomes succeed, and that reporting never changes an outcome.
    Json: json.loads as a parser and json.dump as a printer of JSON values; every value that is printed
      is read back, alone, in the preset file and in the progress stream.
    Jobs (job_manager.py): Job, JobManager and its threads; one definition per critical section and
      per lock-free write, and the step relation that interleaves them.  JobsInvariant has the
      inductive invariant, one preservation lemma per operation, and how a step may change a job;
      JobsProperties the guarantees, with termination and completeness of the workers.
    Board: the abstract specification of the store, a board of tickets without queue, workers,
      counter or locks, and the simulation: each step of the store is one of the board or is not
      visible on it.  The invariant of the board carries over through the refinement locale.
    Files: names, inodes, symbolic links, descriptors, and the calls of ops.py on them; the locale
      claim_files states what the operation relies on.
    Ops (ops.py, models.py): the operation with every exit, over Files; HandBrake and all other
      processes are one function on the file system while the encode runs, and another one between
      the tamper check and the rename.
    Intake: path validation, the file system with its links and the encode operation together: what
      the kernel reaches when HandBrake opens its input and its output.
    Api (main.py): the routes, the exception handlers, the sweep loop and the lifespan, on one record
      of service state; the locale job_store is what the routes rely on.
    E2E (scripts/e2e_encode.py): the client, the two polling loops, all checks and the exit status.
    This theory composes the worker of the store with the encode operation.

  State and operations.  The manager's record mgr mirrors JobManager: _jobs is the association list
  jobs, _queue is queue (None is a sentinel), _pending is pending, _running is is_running, _threads is
  threads; a Job object is an index into heap, because the dictionary, the queue and the workers
  share it; workers and shut are the program counters of the worker threads and of shutdown,
  putting the submits between their lock and their put.  The file system record maps names to
  inodes or links and descriptors to inodes.  Everything random, timed or external is an argument:
  uuid4, token_hex, clock readings, realpath and isfile, subprocess.run and the child's output,
  json.loads and json.dumps, failures of single system calls, the answers of the network.

  Bounds and fuel.  The watcher loop and both loops of the end-to-end check take fuel and return None
  when it runs out; watch_cancel_kills_iff and e2e_check_ends say how much is enough (the round in
  which the process ends or the cancel fires; the time to the deadline over what one sleep gains).
  The JSON parser takes fuel; twice the length of the text and one more is enough (scan_enough).  The
  kernel follows at most forty links, and realpath ends because it follows each link once.
  All other recursions are structural or have a termination proof.  Integers are unbounded, as in
  Python; floats are rounded where Python rounds.

  Assumptions, stated in the theorems or in the definitions.  A fresh uuid4 is not an id in use.
  Attribute stores are atomic.  Other processes act on the directory only while the encode runs
  and between the tamper check and the rename.
  os.close does not fail.  The snapshot of shutdown and the cancelling that follows are separate
  steps; a second start or shutdown waits, as both run in the one event loop.  The two stores of
  set_eta are two steps.  A job function writes only its own job's fields, which
  run_encode_job_writes proves of the encode operation.

  Not modelled, and why: the text of messages and log lines (the values they interpolate are kept);
  FastAPI's routing, validation and serialisation, uvicorn, threads' scheduling beyond interleaving
  of atomic steps, joins with a timeout (a join may return at any time); the decoding of UTF-8,
  the decimal text of a float and the interpreter's recursion limit, which are parameters (json.loads
  is a parameter where it is called and is given by Json); realpath of a relative path, which depends
  on the working directory; text with code points above 255; argparse in the
  end-to-end check; the tests, the Dockerfile, the compose files and the CI workflow, which hold no
  logic of the service.
\<close>

section \<open>A job from claim to published file\<close>

section \<open>One round of a worker\<close>

text \<open>The body of the worker's loop on one queue item, with the encode operation as the job function: take
  the item, count it off, claim the job; if the claim is granted, run the operation on the
  claimed job's id and the item's request, whose writes are the reports and whose result decides
  the final writes; otherwise write the refusal.  No other thread acts in between.\<close>

fun report_all :: "nat \<Rightarrow> job_write list \<Rightarrow> 'f mgr \<Rightarrow> 'f mgr option" where
  "report_all i [] m = Some m"
| "report_all i (w # ws) m = Option.bind (worker_report i w m) (report_all i ws)"

fun write_all :: "nat \<Rightarrow> nat \<Rightarrow> 'f mgr \<Rightarrow> 'f mgr option" where
  "write_all 0 i m = Some m"
| "write_all (Suc n) i m =
     (case workers m ! i of
        WWrite r ws d \<Rightarrow> Option.bind (worker_write i m) (write_all n i)
      | _ \<Rightarrow> Some m)"

definition serve_item ::
  "op_env \<Rightarrow> rat \<Rightarrow> rat \<Rightarrow> nat \<Rightarrow> fs \<Rightarrow> encode_request mgr \<Rightarrow> (encode_request mgr \<times> fs) option" where
  "serve_item env claimed finish i s m =
     Option.bind (worker_take i m) (\<lambda>m1.
     Option.bind (worker_uncount i m1) (\<lambda>m2.
     Option.bind (worker_claim claimed i m2) (\<lambda>m3.
       case workers m3 ! i of
         WRun r req \<Rightarrow>
           (case run_encode_job env (job_id (heap m3 ! r)) req s of
              (res, ws, s') \<Rightarrow>
                Option.bind (report_all i ws m3) (\<lambda>m4.
                Option.bind (worker_return finish res i m4) (\<lambda>m5.
                Option.bind (write_all 3 i m5) (\<lambda>m6. Some (m6, s')))))
       | _ \<Rightarrow> Option.bind (write_all 3 i m3) (\<lambda>m6. Some (m6, s)))))"

text \<open>A round is a run of the store.\<close>

lemma report_all_steps: "report_all i ws m = Some m' \<Longrightarrow> step\<^sup>*\<^sup>* m m'"
proof (induction ws arbitrary: m)
  case (Cons w ws)
  then obtain m1 where "worker_report i w m = Some m1" "report_all i ws m1 = Some m'"
    by (auto simp: bind_eq_Some_conv)
  then show ?case using Cons.IH step_report by (blast intro: converse_rtranclp_into_rtranclp)
qed simp

lemma write_all_steps: "write_all n i m = Some m' \<Longrightarrow> step\<^sup>*\<^sup>* m m'"
proof (induction n arbitrary: m)
  case (Suc n)
  then have "m' = m \<or> (\<exists>m1. worker_write i m = Some m1 \<and> write_all n i m1 = Some m')"
    by (auto simp: bind_eq_Some_conv split: worker.splits)
  then show ?case using Suc.IH step_write by (blast intro: converse_rtranclp_into_rtranclp)
qed simp

lemma serve_item_steps:
  assumes "serve_item env claimed finish i s m = Some (m', s')"
  shows "step\<^sup>*\<^sup>* m m'"
proof -
  obtain m1 m2 m3 where m: "worker_take i m = Some m1" "worker_uncount i m1 = Some m2" "worker_claim claimed i m2 = Some m3"
    using assms by (auto simp: serve_item_def bind_eq_Some_conv)
  have r: "step\<^sup>*\<^sup>* m3 m'"
  proof (cases "workers m3 ! i")
    case (WRun r req)
    obtain res ws s'' where e: "run_encode_job env (job_id (heap m3 ! r)) req s = (res, ws, s'')"
      using prod_cases3 by blast
    obtain m4 m5 where f: "report_all i ws m3 = Some m4" "worker_return finish res i m4 = Some m5" "write_all 3 i m5 = Some m'"
      using assms m WRun e by (auto simp: serve_item_def bind_eq_Some_conv)
    have "step\<^sup>*\<^sup>* m3 m4" by (rule report_all_steps [OF f(1)])
    also have "step m4 m5" by (rule step_return [OF f(2)])
    also have "step\<^sup>*\<^sup>* m5 m'" by (rule write_all_steps [OF f(3)])
    finally show ?thesis .
  qed (use assms m in \<open>auto simp: serve_item_def bind_eq_Some_conv intro: write_all_steps\<close>)
  have "step\<^sup>*\<^sup>* m2 m'" by (rule converse_rtranclp_into_rtranclp [where r = step, OF step_claim [OF m(3)] r])
  then have "step\<^sup>*\<^sup>* m1 m'" by (rule converse_rtranclp_into_rtranclp [where r = step, OF step_uncount [OF m(2)]])
  then show ?thesis by (rule converse_rtranclp_into_rtranclp [where r = step, OF step_take [OF m(1)]])
qed

text \<open>Its effect on the job: the operation's writes in order, then the worker's.\<close>

lemma update_job_twice [simp]:
  "update_job r g (update_job r f m) = update_job r (\<lambda>j. g (f j)) m"
  by (cases "r < length (heap m)") (simp_all add: update_job_def list_update_beyond)

lemma set_worker_twice [simp]: "set_worker i w (set_worker i v m) = set_worker i w m"
  by (simp add: set_worker_def)

lemma set_worker_update_job: "set_worker i w (update_job r f m) = update_job r f (set_worker i w m)"
  by (simp add: set_worker_def update_job_def)

lemma report_all_effect:
  assumes "i < length (workers m)" and "workers m ! i = WRun r fn" and "list_all is_report ws"
  shows "report_all i ws m = Some (update_job r (fold write_job ws) m)"
  using assms
proof (induction ws arbitrary: m)
  case Nil
  have "update_job r (\<lambda>j. j) m = m" by (simp add: update_job_def)
  then show ?case by (simp add: id_def)
next
  case (Cons w ws)
  then have "worker_report i w m = Some (update_job r (write_job w) m)" by (simp add: worker_report_def)
  then show ?case using Cons by (simp add: comp_def)
qed

lemma write_all_effect:
  assumes "i < length (workers m)" and "ws \<noteq> []" and "length ws \<le> n"
  shows "write_all n i (set_worker i (WWrite r ws d) m) =
    Some (set_worker i (if d then WDone else WGet) (update_job r (fold write_job ws) m))"
  using assms
proof (induction ws arbitrary: m n)
  case (Cons w ws)
  obtain k where n: "n = Suc k" using Cons.prems(3) by (cases n) auto
  let ?b = "set_worker i (if ws \<noteq> [] then WWrite r ws d else if d then WDone else WGet) (update_job r (write_job w) m)"
  have b: "worker_write i (set_worker i (WWrite r (w # ws) d) m) = Some ?b"
    using Cons.prems(1) by (simp add: worker_write_def set_worker_def update_job_def)
  have w: "workers (set_worker i (WWrite r (w # ws) d) m) ! i = WWrite r (w # ws) d"
    using Cons.prems(1) by (simp add: set_worker_def)
  have nxt: "write_all n i (set_worker i (WWrite r (w # ws) d) m) = write_all k i ?b"
    by (simp only: n write_all.simps w worker.case b bind.bind_lunit)
  show ?case
  proof (cases "ws = []")
    case True
    have "workers ?b ! i = (if d then WDone else WGet)" using True Cons.prems(1) by (simp add: set_worker_def)
    then have "write_all k i ?b = Some ?b" by (cases k) simp_all
    then show ?thesis unfolding nxt by (simp add: True comp_def)
  next
    case False
    then have "write_all k i ?b = Some (set_worker i (if d then WDone else WGet)
        (update_job r (fold write_job ws) (update_job r (write_job w) m)))"
      using Cons.IH [of "update_job r (write_job w) m" k] Cons.prems n by simp
    then show ?thesis unfolding nxt by (simp add: comp_def)
  qed
qed simp

lemma serve_item_effect:
  assumes "i < length (workers m)" and "workers m ! i = WGet" and "queue m = Some (r, req) # rest"
    and "\<not> cancelled (heap m ! r)" and "r < length (heap m)"
    and "run_encode_job env (job_id (heap m ! r)) req s = (res, ws, s')"
  shows "\<exists>m'. serve_item env claimed finish i s m = Some (m', s') \<and> jobs m' = jobs m \<and>
    heap m' = (heap m)[r := fold write_job (ws @ terminal_writes finish res) ((heap m ! r)\<lparr>status := RUNNING\<rparr>)]"
proof -
  let ?a = "set_worker i (WTaken r req) (m\<lparr>queue := rest\<rparr>)"
  let ?b = "set_worker i (WClaim r req) (?a\<lparr>pending := pending m - 1\<rparr>)"
  let ?c = "set_worker i (WRun r req) (update_job r (\<lambda>j. j\<lparr>status := RUNNING\<rparr>) ?b)"
  let ?d = "update_job r (fold write_job ws) ?c"
  let ?e = "set_worker i (WWrite r (terminal_writes finish res) (kills_thread res)) ?d"
  let ?f = "set_worker i (if kills_thread res then WDone else WGet) (update_job r (fold write_job (terminal_writes finish res)) ?d)"
  have a: "worker_take i m = Some ?a" using assms by (simp add: worker_take_def)
  have b: "worker_uncount i ?a = Some ?b" using assms(1) by (simp add: worker_uncount_def set_worker_def)
  have c: "worker_claim claimed i ?b = Some ?c"
    using assms(1,4) by (simp add: worker_claim_def claim_def set_worker_def update_job_def)
  have w: "i < length (workers ?c)" "workers ?c ! i = WRun r req" "job_id (heap ?c ! r) = job_id (heap m ! r)"
    using assms(1,5) by (simp_all add: set_worker_def update_job_def)
  have "list_all is_report ws" using run_encode_job_reports [of env "job_id (heap m ! r)" req s] assms(6) by simp
  then have d: "report_all i ws ?c = Some ?d" by (rule report_all_effect [OF w(1,2)])
  have e: "worker_return finish res i ?d = Some ?e"
    using w(1,2) by (simp add: worker_return_def)
  have "terminal_writes finish res \<noteq> []" "length (terminal_writes finish res) \<le> 3" "i < length (workers ?d)"
    using w(1) by (cases "(finish, res)" rule: terminal_writes.cases; simp)+
  then have f: "write_all 3 i ?e = Some ?f" by (intro write_all_effect) simp_all
  have "serve_item env claimed finish i s m = Some (?f, s')"
    unfolding serve_item_def using w(2,3) assms(6) by (simp only: a b c d e f bind.bind_lunit worker.case prod.case)
  moreover have "jobs ?f = jobs m" "heap ?f = (heap m)[r := fold write_job (ws @ terminal_writes finish res) ((heap m ! r)\<lparr>status := RUNNING\<rparr>)]"
    using assms(5) by (simp_all add: set_worker_def update_job_def)
  ultimately show ?thesis by blast
qed

section \<open>From a request to a published file\<close>

lemma callback_writes_keep_output:
  "output_path (fold write_job (concat (map (callback_writes c) cs)) j) = output_path j"
proof (induction cs arbitrary: j)
  case (Cons x cs)
  then show ?case by (cases x) (simp_all add: set_eta_def)
qed simp

lemma published_output:
  assumes "run_encode_job env jid req s = (Inr u, ws, s')"
    and "\<forall>src ext. derive_output_path src jid ext \<noteq> Inr (temp_name env)"
  shows "\<exists>dst. output_path (fold write_job ws j) = Some dst \<and> entry_at s' dst \<noteq> None"
proof -
  obtain cmd staging dst fd s0 encoder reports s4 where
    e: "encode_entry env jid req s = Some (cmd, staging, dst, fd, s0)"
    and p: "encode_and_publish env cmd staging dst fd s0 = (Inr u, False, reports, s4)"
    and ws: "ws = [SetEncoder encoder, SetOutput dst, SetMessage ''Encoding''] @ reports"
    and s': "s' = finish_op env fd False s4"
    by (rule run_encode_job_Inr [OF assms(1)])
  have "\<exists>src ext. derive_output_path src jid ext = Inr dst"
    using e by (auto simp: encode_entry_def split: sum.splits prod.splits elim!: prepare_Inr)
  then have "temp_name env \<noteq> dst" using assms(2) by metis
  moreover have "entry_at s4 dst \<noteq> None"
    using encode_and_publish_Inr [OF p] fs_claim.publish_moves encode_entry_state [OF e] by metis
  ultimately have "entry_at s' dst \<noteq> None" using finish_op_frame [of env fd False s4] by (simp add: s')
  moreover have "output_path (fold write_job ws j) = Some dst"
    using encode_and_publish_writes [OF p] by (simp add: ws callback_writes_keep_output)
  ultimately show ?thesis by blast
qed

lemma reports_keep:
  "list_all is_report ws \<Longrightarrow> job_id (fold write_job ws j) = job_id j \<and> job_error (fold write_job ws j) = job_error j"
proof (induction ws arbitrary: j)
  case (Cons w ws)
  then show ?case by (cases w) simp_all
qed simp

text \<open>What a GET reports of a job whose operation has ended.\<close>

lemma full_progress: "round1 (Fin 100) = Fin 100"
  by code_simp

lemma ended_view:
  assumes "list_all is_report ws" and "v = to_dict clock (fold write_job (terminal_writes now res) (fold write_job ws j))"
    and "job_error j = None"
  shows "v_job_id v = job_id j \<and> v_finished_at v = Some now \<and>
    v_status v = (case res of Inr _ \<Rightarrow> ''completed''
      | Inl e \<Rightarrow> if e = HandBrakeCancelled then ''cancelled'' else ''failed'') \<and>
    v_error v = (case res of Inr _ \<Rightarrow> None | Inl e \<Rightarrow> if e = HandBrakeCancelled then None else Some (Raised e)) \<and>
    (res = Inr () \<longrightarrow> v_progress v = Fin 100 \<and> v_output_path v = output_path (fold write_job ws j))"
  using reports_keep [OF assms(1), of j] assms(3) unfolding assms(2)
  by (cases "(now, res)" rule: terminal_writes.cases) (simp_all add: to_dict_def full_progress del: round1.simps)

text \<open>C5. From the request to the published file.  A POST that is accepted while the queue is empty and a
  worker is idle answers with the id of the new job; that worker's next round takes the item, runs
  the encode operation for it and ends in a state, reached by steps of the store, in which a
  GET of that id reports exactly what the operation did: completed at 100 percent, with an output path
  at which a file exists, when it returned; cancelled when HandBrake was cancelled; otherwise
  failed, with the exception as its error; in each case with the worker's finish time.\<close>

theorem request_is_served:
  assumes "post_job os run uuid created now req st = (Returned jid, st1)" and "get uuid (store st) = None"
    and "queue (store st) = []" and "i < length (workers (store st))" and "workers (store st) ! i = WGet"
    and "run_encode_job env uuid req s = (res, ws, s')"
    and "\<forall>src ext. derive_output_path src uuid ext \<noteq> Inr (temp_name env)"
  shows "jid = uuid \<and> (\<exists>m' v. serve_item env claimed finish i s (store st1) = Some (m', s') \<and>
    step\<^sup>*\<^sup>* (store st1) m' \<and> get_job clock uuid (st1\<lparr>store := m'\<rparr>) = Returned v \<and>
    v_job_id v = uuid \<and> v_finished_at v = Some finish \<and>
    v_status v = (case res of Inr _ \<Rightarrow> ''completed''
      | Inl e \<Rightarrow> if e = HandBrakeCancelled then ''cancelled'' else ''failed'') \<and>
    v_error v = (case res of Inr _ \<Rightarrow> None | Inl e \<Rightarrow> if e = HandBrakeCancelled then None else Some (Raised e)) \<and>
    (res = Inr () \<longrightarrow> v_progress v = Fin 100 \<and> (\<exists>dst. v_output_path v = Some dst \<and> entry_at s' dst \<noteq> None)))"
proof -
  let ?r = "length (heap (store st))" and ?j = "(new_job uuid created)\<lparr>status := RUNNING\<rparr>"
  have p: "jid = uuid" "get uuid (store st1) = Some ?r" "heap (store st1) = heap (store st) @ [new_job uuid created]"
    "queue (store st1) = [Some (?r, req)]" "workers (store st1) = workers (store st)"
    using post_job_cases [OF assms(1,2)] post_job_workers [OF assms(1)] assms(3) by auto
  have j: "heap (store st1) ! ?r = new_job uuid created" "?r < length (heap (store st1))" by (simp_all add: p(3))
  have run: "run_encode_job env (job_id (heap (store st1) ! ?r)) req s = (res, ws, s')"
    using assms(6) by (simp add: j new_job_def)
  have nc: "\<not> cancelled (heap (store st1) ! ?r)" by (simp add: j new_job_def)
  obtain m' where m': "serve_item env claimed finish i s (store st1) = Some (m', s')" "jobs m' = jobs (store st1)"
    "heap m' = (heap (store st1))[?r := fold write_job (ws @ terminal_writes finish res) ((heap (store st1) ! ?r)\<lparr>status := RUNNING\<rparr>)]"
    using serve_item_effect [OF _ _ p(4) nc j(2) run, of i claimed finish] assms(4,5) p(5) by auto
  have h: "heap m' ! ?r = fold write_job (terminal_writes finish res) (fold write_job ws ?j)"
    using j(2) by (simp add: m'(3) j(1))
  have "get uuid m' = Some ?r" using p(2) m'(2) by (simp add: get_def)
  then have g: "get_job clock uuid (st1\<lparr>store := m'\<rparr>) = Returned (to_dict clock (heap m' ! ?r))"
    by (simp add: get_job_def require_job_def)
  have rep: "list_all is_report ws" using run_encode_job_reports [of env uuid req s] assms(6) by simp
  note v = ended_view [OF rep refl, where clock = clock and now = finish and res = res and j = ?j]
  have "\<exists>dst. output_path (fold write_job ws ?j) = Some dst \<and> entry_at s' dst \<noteq> None"
    if "res = Inr ()" using published_output [OF assms(6) [unfolded that] assms(7)] .
  then show ?thesis using p(1) m'(1) serve_item_steps [OF m'(1)] g v
    by (intro conjI exI [of _ m'] exI [of _ "to_dict clock (heap m' ! ?r)"]) (auto simp: h new_job_def)
qed

theorem request_is_served_witness:
  "\<exists>m' v dst s'. serve_item Ops.demo_env 5 11 0 demo_fs (store (snd demo_post)) = Some (m', s') \<and>
     get_job 12 ''abc123'' ((snd demo_post)\<lparr>store := m'\<rparr>) = Returned v \<and>
     v_status v = ''completed'' \<and> v_output_path v = Some dst \<and> entry_at s' dst \<noteq> None"
proof -
  obtain ws s' where r: "run_encode_job Ops.demo_env ''abc123'' demo_req demo_fs = (Inr (), ws, s')"
    using demo_outcome(1) by (cases "run_encode_job Ops.demo_env ''abc123'' demo_req demo_fs") auto
  have t: "\<forall>src ext. derive_output_path src ''abc123'' ext \<noteq> Inr (temp_name Ops.demo_env)"
  proof (intro allI notI)
    fix src ext assume "derive_output_path src ''abc123'' ext = Inr (temp_name Ops.demo_env)"
    then have "basename (temp_name Ops.demo_env) = OUTPUT_PREFIX @ ''abc123'' @ ''.'' @ ext" by (rule derived_basename)
    moreover have "basename (temp_name Ops.demo_env) = ''p.json''" by code_simp
    ultimately show False by (simp add: OUTPUT_PREFIX_def)
  qed
  have "queue (store demo_service) = []" "0 < length (workers (store demo_service))"
    "workers (store demo_service) ! 0 = WGet"
    by (simp_all add: demo_service_def start_manager_def init_manager_def)
  then show ?thesis
    using request_is_served [OF demo_post_pair demo_store_empty _ _ _ r t, of 0 5 11 12] by auto
qed

section \<open>The preset file\<close>

text \<open>C22. HandBrake reads the document that was requested: when the encode starts, the temporary file that
  the command names as its preset import holds a text from which json.loads gives back exactly the
  document of the request, and the command selects the requested preset by name.\<close>

theorem preset_file_holds_the_document:
  assumes "encode_entry env jid req s = Some (cmd, staging, dst, fd, s0)"
    and "dumps env = (\<lambda>d. json_text fr (JDict d))" and "json_ok fr levels (JDict (preset_json req))"
  shows "(\<exists>j text. entry_at s0 (temp_name env) = Some (EFile j) \<and> content_of s0 j = Some text \<and>
      py_loads levels text = Loaded (JDict (preset_json req))) \<and>
    sublist [''--preset-import-file'', temp_name env, ''--preset'', preset_name req] cmd"
proof -
  obtain src h s1 s2 u where o2: "open_excl (temp_name env) s1 = Some (h, s2)"
    and d: "dump_preset env (preset_json req) h s2 = (Inr u, s0)"
    and cmd: "cmd = build_encode_command (hb_bin env) src staging (temp_name env) (preset_name req)"
    using assms(1)
    by (auto simp: encode_entry_def claim_staging_Inr create_temp_Inr split: sum.splits prod.splits)
  have "cmd = [hb_bin env, ''--json''] @ [''--preset-import-file'', temp_name env, ''--preset'', preset_name req] @
      [''-i'', src, ''-o'', staging]"
    by (simp add: cmd build_encode_command_def handbrake_cmd_def)
  then have "sublist [''--preset-import-file'', temp_name env, ''--preset'', preset_name req] cmd"
    by (metis sublist_appendI)
  then show ?thesis
    using dump_preset_content [OF o2 d] json_round_trip [OF assms(3)] by (auto simp: assms(2))
qed

theorem preset_file_holds_the_document_witness:
  "\<exists>cmd staging dst fd s0 j text.
     encode_entry (Ops.demo_env\<lparr>dumps := \<lambda>d. json_text (\<lambda>_. []) (JDict d)\<rparr>) ''abc123'' demo_req demo_fs =
       Some (cmd, staging, dst, fd, s0) \<and>
     entry_at s0 ''/tmp/p.json'' = Some (EFile j) \<and> content_of s0 j = Some text \<and>
     py_loads 3 text = Loaded (JDict (preset_json demo_req))"
proof -
  let ?env = "Ops.demo_env\<lparr>dumps := \<lambda>d. json_text (\<lambda>_. []) (JDict d)\<rparr>"
  have "encode_entry ?env ''abc123'' demo_req demo_fs \<noteq> None" by code_simp
  then obtain cmd staging dst fd s0 where e: "encode_entry ?env ''abc123'' demo_req demo_fs =
      Some (cmd, staging, dst, fd, s0)" by auto
  have "json_ok (\<lambda>_. []) 3 (JDict (preset_json demo_req))" by (simp add: demo_req_def eval_nat_numeral)
  moreover have "temp_name ?env = ''/tmp/p.json''" by (simp add: Ops.demo_env_def)
  ultimately show ?thesis
    using preset_file_holds_the_document [OF e, of "\<lambda>_. []" 3] e by fastforce
qed

end
